theory Spec2Isabelle
  imports Complex_Main "HOL-Library.Multiset" "HOL-Library.Log_Nat"
begin

section \<open>NameGenderMapper: a shallow embedding of \<open>NameGenderMapper.py\<close>\<close>

text \<open>
  Conventions of the embedding.

  \<^item> A Python \<open>str\<close> is a \<open>string\<close>; a \<open>char\<close> stands for the Unicode code point of the
    same number, so the model covers the code points 0 to 255 (ASCII and Latin-1).
  \<^item> A Python \<open>float\<close> is the \<open>rat\<close> that the IEEE double denotes; division and
    multiplication round to the nearest double (\<open>double\<close>). \<open>"{:.3f}".format\<close> is
    \<open>fmt3\<close>, which rounds the exact value of the double to three decimals, a tie to the
    even neighbour, as the conversion of Python does.
  \<^item> A \<open>Counter\<close> and a \<open>dict\<close> that the script iterates are association lists in
    insertion order; a \<open>dict\<close> that is only looked up is a map.
  \<^item> A row delivered by \<open>csv.reader\<close> is a \<open>string list\<close>; reading, writing and the
    detection of the delimiter are outside the model.
\<close>

subsection \<open>Strings\<close>

definition isspace :: "char \<Rightarrow> bool" where
  "isspace c = (let n = (of_char c :: nat)
     in (9 \<le> n \<and> n \<le> 13) \<or> (28 \<le> n \<and> n \<le> 32) \<or> n = 133 \<or> n = 160)"

definition lower_char :: "char \<Rightarrow> char" where
  "lower_char c = (let n = (of_char c :: nat)
     in if (65 \<le> n \<and> n \<le> 90) \<or> (192 \<le> n \<and> n \<le> 222 \<and> n \<noteq> 215)
        then char_of (n + 32) else c)"

definition lower :: "string \<Rightarrow> string" where
  "lower s = map lower_char s"

text \<open>
  \<open>str.upper\<close>: the sharp s (223) becomes \<open>SS\<close>. The upper-case forms of the micro sign
  (181) and of y with diaeresis (255) are the code points 924 and 376; the model leaves
  these two characters as they are. The script uses an upper-cased string only as a
  dictionary key, and no other character of the model is mapped to either of them.
\<close>

definition upper_char :: "char \<Rightarrow> string" where
  "upper_char c = (let n = (of_char c :: nat)
     in if (97 \<le> n \<and> n \<le> 122) \<or> (224 \<le> n \<and> n \<le> 254 \<and> n \<noteq> 247)
        then [char_of (n - 32)]
        else if n = 223 then ''SS'' else [c])"

definition upper :: "string \<Rightarrow> string" where
  "upper s = concat (map upper_char s)"

definition strip :: "string \<Rightarrow> string" where
  "strip s = rev (dropWhile isspace (rev (dropWhile isspace s)))"

text \<open>\<open>str.split()\<close> without arguments: the maximal runs of non-whitespace characters.\<close>

fun split_acc :: "string \<Rightarrow> string \<Rightarrow> string list" where
  "split_acc cur [] = (if cur = [] then [] else [rev cur])"
| "split_acc cur (c # cs) =
     (if isspace c then (if cur = [] then split_acc [] cs else rev cur # split_acc [] cs)
      else split_acc (c # cur) cs)"

definition split :: "string \<Rightarrow> string list" where
  "split s = split_acc [] s"

definition startswith :: "string \<Rightarrow> string \<Rightarrow> bool" where
  "startswith s p = (take (length p) s = p)"

subsection \<open>Name and gender normalisation\<close>

datatype gender = Male | Female | Unknown

text \<open>The label as the script holds and writes it: \<open>'M'\<close>, \<open>'F'\<close>, \<open>'Unknown'\<close>.\<close>

fun gender_str :: "gender \<Rightarrow> string" where
  "gender_str Male = ''M''"
| "gender_str Female = ''F''"
| "gender_str Unknown = ''Unknown''"

text \<open>
  The character class of \<open>_valid_chars_re\<close>: the letters \<open>A-Z\<close>, \<open>a-z\<close>, the Latin-1
  letters 192-214, 216-246 and 248-255, the apostrophe, the hyphen and whitespace. Every
  other character is removed.
\<close>

definition valid_char :: "char \<Rightarrow> bool" where
  "valid_char c = (let n = (of_char c :: nat)
     in (65 \<le> n \<and> n \<le> 90) \<or> (97 \<le> n \<and> n \<le> 122)
        \<or> (192 \<le> n \<and> n \<le> 214) \<or> (216 \<le> n \<and> n \<le> 246) \<or> (248 \<le> n \<and> n \<le> 255)
        \<or> n = 39 \<or> n = 45 \<or> isspace c)"

definition normalize_gender :: "string \<Rightarrow> gender" where
  "normalize_gender g =
     (if g = [] then Unknown
      else let s = lower (strip g)
           in if s = ''m'' \<or> startswith s ''m'' then Male
              else if s = ''f'' \<or> startswith s ''f'' then Female
              else Unknown)"

definition get_first_name :: "string \<Rightarrow> string" where
  "get_first_name full_name =
     (if full_name = [] then []
      else let s = filter valid_char (strip full_name);
               tokens = filter (\<lambda>t. t \<noteq> []) (split s)
           in case tokens of
                [] \<Rightarrow> []
              | t0 # ts \<Rightarrow>
                  if length t0 = 1
                  then (case ts of
                          t1 # _ \<Rightarrow> if length t1 > 1 then lower t1 else []
                        | [] \<Rightarrow> [])
                  else lower t0)"

subsection \<open>Counting structures\<close>

text \<open>
  \<open>defaultdict\<close> and \<open>Counter\<close> keep their keys in the order of first insertion. The
  statement \<open>d[k] = f(d[k])\<close> on a \<open>defaultdict\<close> changes the value of a key that is
  present in place, and appends a key that is absent, with \<open>f\<close> of the default value.
\<close>

fun dd_update :: "'k \<Rightarrow> 'v \<Rightarrow> ('v \<Rightarrow> 'v) \<Rightarrow> ('k \<times> 'v) list \<Rightarrow> ('k \<times> 'v) list" where
  "dd_update k dflt f [] = [(k, f dflt)]"
| "dd_update k dflt f ((k', v) # d) =
     (if k' = k then (k', f v) # d else (k', v) # dd_update k dflt f d)"

type_synonym counter = "(gender \<times> nat) list"

type_synonym name_counts = "(string \<times> counter) list"

type_synonym country_counts = "(string \<times> name_counts) list"

text \<open>\<open>ctr[g] += 1\<close>\<close>

definition counter_inc :: "gender \<Rightarrow> counter \<Rightarrow> counter" where
  "counter_inc g ctr = dd_update g 0 Suc ctr"

text \<open>\<open>counts_global[fname][g] += 1\<close>\<close>

definition counts_inc :: "string \<Rightarrow> gender \<Rightarrow> name_counts \<Rightarrow> name_counts" where
  "counts_inc fname g counts = dd_update fname [] (counter_inc g) counts"

text \<open>\<open>counts_by_country[country][fname][g] += 1\<close>\<close>

definition country_inc :: "string \<Rightarrow> string \<Rightarrow> gender \<Rightarrow> country_counts \<Rightarrow> country_counts" where
  "country_inc country fname g cc = dd_update country [] (counts_inc fname g) cc"

text \<open>\<open>sum(ctr.values())\<close>\<close>

definition total_of :: "counter \<Rightarrow> nat" where
  "total_of ctr = sum_list (map snd ctr)"

text \<open>
  \<open>Counter.most_common()\<close>: the items sorted by count, largest first; the sort is stable,
  so items of equal count stay in insertion order. \<open>most_common(1)\<close> is its first item.
\<close>

definition most_common :: "counter \<Rightarrow> counter" where
  "most_common ctr = sort_key (\<lambda>(g, n). - int n) ctr"

subsection \<open>Reading the reference rows\<close>

record columns =
  name_idx :: nat
  gender_idx :: nat
  country_idx :: "nat option"

definition default_columns :: columns where
  "default_columns = \<lparr>name_idx = 0, gender_idx = 1, country_idx = None\<rparr>"

text \<open>\<open>list.index\<close>, called only for an element that is in the list.\<close>

fun index_of :: "'a \<Rightarrow> 'a list \<Rightarrow> nat" where
  "index_of x [] = 0"
| "index_of x (y # ys) = (if x = y then 0 else Suc (index_of x ys))"

text \<open>The columns named by a header row; \<open>None\<close> when no cell is \<open>name\<close>.\<close>

definition detect_columns :: "string list \<Rightarrow> columns option" where
  "detect_columns first_row =
     (let lowered = map (\<lambda>c. lower (strip c)) first_row
      in if ''name'' \<in> set lowered
         then Some \<lparr>name_idx = index_of ''name'' lowered,
                    gender_idx = (if ''gender'' \<in> set lowered then index_of ''gender'' lowered
                                  else if ''sex'' \<in> set lowered then index_of ''sex'' lowered
                                  else 1),
                    country_idx = (if ''country'' \<in> set lowered
                                   then Some (index_of ''country'' lowered) else None)\<rparr>
         else None)"

text \<open>\<open>row[i] if len(row) > i else ''\<close>\<close>

definition field :: "string list \<Rightarrow> nat \<Rightarrow> string" where
  "field row i = (if length row > i then row ! i else [])"

text \<open>The body of the loop over the reference rows.\<close>

definition agg_row :: "columns \<Rightarrow> string list \<Rightarrow> name_counts \<times> country_counts
    \<Rightarrow> name_counts \<times> country_counts" where
  "agg_row cols row st =
     (case st of (counts_global, counts_by_country) \<Rightarrow>
        if row = [] then st
        else let name = field row (name_idx cols);
                 gender = field row (gender_idx cols);
                 fname = get_first_name name
             in if fname = [] then st
                else let gnorm = normalize_gender gender;
                         counts_global' = counts_inc fname gnorm counts_global
                     in (case country_idx cols of
                           None \<Rightarrow> (counts_global', counts_by_country)
                         | Some ci \<Rightarrow>
                             let country = upper (strip (field row ci))
                             in if country = [] then (counts_global', counts_by_country)
                                else (counts_global',
                                      country_inc country fname gnorm counts_by_country)))"

text \<open>
  The whole reference file. A first row with a \<open>name\<close> cell is a header and fixes the
  columns; any other non-empty first row is counted as data at the default positions,
  into the global table only.
\<close>

definition aggregate :: "string list list \<Rightarrow> name_counts \<times> country_counts" where
  "aggregate rows =
     (case rows of
        [] \<Rightarrow> ([], [])
      | first_row # rest \<Rightarrow>
          if first_row = [] then fold (agg_row default_columns) rest ([], [])
          else (case detect_columns first_row of
                  Some cols \<Rightarrow> fold (agg_row cols) rest ([], [])
                | None \<Rightarrow>
                    let name = field first_row 0;
                        gender = field first_row 1;
                        fname = get_first_name name;
                        counts_global =
                          (if fname \<noteq> [] then counts_inc fname (normalize_gender gender) []
                           else [])
                    in fold (agg_row default_columns) rest (counts_global, [])))"

subsection \<open>Floats\<close>

text \<open>
  A Python \<open>float\<close> is an IEEE double, and the model holds the rational number that the
  double denotes. Every arithmetic result of the script is the exact result rounded to
  the nearest double, a tie to the double with the even significand: \<open>double q\<close> is that
  rounding of \<open>q\<close>, with a significand of 53 bits. So the quotient \<open>a / b\<close> of two
  integers is \<open>double (a / b)\<close>, the product \<open>x * y\<close> of two floats is \<open>double (x * y)\<close>,
  and the literal \<open>0.7\<close> is \<open>double (7 / 10)\<close>. The range of the exponent is not
  modelled: every float of the script is 0 or lies between 0.2 and 1, far from overflow
  and from the subnormal numbers.
\<close>

definition round_half_even :: "rat \<Rightarrow> int" where
  "round_half_even q =
     (let f = \<lfloor>q\<rfloor>; r = q - of_int f
      in if r < 1 / 2 then f
         else if r > 1 / 2 then f + 1
         else if even f then f else f + 1)"

text \<open>The exponent \<open>e\<close> of a number other than 0: \<open>2 ^ e \<le> |q| < 2 ^ (e + 1)\<close>.\<close>

definition binade :: "rat \<Rightarrow> int" where
  "binade q =
     (case quotient_of \<bar>q\<bar> of (n, d) \<Rightarrow>
        let k = bitlen n - bitlen d
        in if 2 powi k \<le> \<bar>q\<bar> then k else k - 1)"

definition double :: "rat \<Rightarrow> rat" where
  "double q =
     (if q = 0 then 0
      else let e = binade q;
               m = round_half_even (\<bar>q\<bar> * 2 powi (52 - e))
           in sgn q * of_int m * 2 powi (e - 52))"

subsection \<open>The mapping with confidence\<close>

definition CONF_THRESHOLD :: rat where
  "CONF_THRESHOLD = double (65 / 100)"

definition MIN_COUNT_FOR_CONFIDENCE :: nat where
  "MIN_COUNT_FOR_CONFIDENCE = 5"

type_synonym entry = "gender \<times> rat \<times> nat"

text \<open>
  The body of the loops that build \<open>mapping\<close> and \<open>mapping_country\<close>; \<open>None\<close> is the
  \<open>continue\<close> of a counter whose total is 0. With a positive total the counter has an
  item, so \<open>most_common(1)[0]\<close> exists and the empty case below is never taken.
  The loop for \<open>mapping_country\<close> divides without the test \<open>total > 0\<close>, which is
  true there.
\<close>

definition entry_of :: "counter \<Rightarrow> entry option" where
  "entry_of ctr =
     (let total = total_of ctr
      in if total = 0 then None
         else (case most_common ctr of
                 [] \<Rightarrow> None
               | (top_gender, top_count) # _ \<Rightarrow>
                   let conf = (if total > 0
                               then double (rat_of_nat top_count / rat_of_nat total) else 0);
                       conf' = (if total < MIN_COUNT_FOR_CONFIDENCE \<and> conf < 1
                                then double (conf * double (7 / 10)) else conf)
                   in Some (top_gender, conf', total)))"

definition build_mapping :: "name_counts \<Rightarrow> (string \<rightharpoonup> entry)" where
  "build_mapping counts_global =
     fold (\<lambda>(fname, ctr) mapping.
             case entry_of ctr of None \<Rightarrow> mapping | Some e \<Rightarrow> mapping(fname \<mapsto> e))
          counts_global Map.empty"

definition build_mapping_country :: "country_counts \<Rightarrow> (string \<times> string \<rightharpoonup> entry)" where
  "build_mapping_country counts_by_country =
     fold (\<lambda>(country, d) mapping_country.
             fold (\<lambda>(fname, ctr) mc.
                     case entry_of ctr of None \<Rightarrow> mc | Some e \<Rightarrow> mc((country, fname) \<mapsto> e))
                  d mapping_country)
          counts_by_country Map.empty"

subsection \<open>The optional classifier\<close>

text \<open>
  The detector of the \<open>gender_guesser\<close> package is not part of the repository: it is a
  parameter, \<open>None\<close> when the import failed (\<open>GG_AVAILABLE = False\<close>) and otherwise the
  function \<open>gg.get_gender\<close>, from a name to the name of a category.
\<close>

type_synonym detector = "(string \<Rightarrow> string) option"

definition GG_AVAILABLE :: "detector \<Rightarrow> bool" where
  "GG_AVAILABLE gg = (gg \<noteq> None)"

definition gg_guess :: "detector \<Rightarrow> string \<Rightarrow> gender \<times> rat" where
  "gg_guess gg first =
     (case gg of
        None \<Rightarrow> (Unknown, 0)
      | Some get_gender \<Rightarrow>
          if first = [] then (Unknown, 0)
          else let g = get_gender first
               in if g = ''male'' then (Male, 1)
                  else if g = ''mostly_male'' then (Male, double (85 / 100))
                  else if g = ''female'' then (Female, 1)
                  else if g = ''mostly_female'' then (Female, double (85 / 100))
                  else if g = ''andy'' then (Unknown, double (5 / 10))
                  else (Unknown, 0))"

subsection \<open>The decision for one input row\<close>

text \<open>\<open>(chosen_gender, chosen_conf, source)\<close>\<close>

type_synonym decision = "gender \<times> rat \<times> string"

definition undecided :: decision where
  "undecided = (Unknown, 0, ''unknown'')"

text \<open>
  The block \<open>if fname:\<close> that looks the name up, first under the country and only when
  that key is absent in the global mapping. The assignments to \<open>cand_g\<close> and
  \<open>cand_conf\<close> in its two \<open>else\<close> branches are never read: \<open>cand_g\<close> is not used again and
  \<open>cand_conf\<close> is assigned anew before its only uses. They leave the decision as it was.
\<close>

definition step_mapping :: "(string \<times> string \<rightharpoonup> entry) \<Rightarrow> (string \<rightharpoonup> entry)
    \<Rightarrow> string \<Rightarrow> string \<Rightarrow> decision" where
  "step_mapping mapping_country mapping country fname =
     (if fname \<noteq> [] then
        (case mapping_country (country, fname) of
           Some (g, conf, tot) \<Rightarrow>
             if conf \<ge> CONF_THRESHOLD then (g, conf, ''country-mapped'') else undecided
         | None \<Rightarrow>
             (case mapping fname of
                Some (g, conf, tot) \<Rightarrow>
                  if conf \<ge> CONF_THRESHOLD then (g, conf, ''mapped'') else undecided
              | None \<Rightarrow> undecided))
      else undecided)"

text \<open>The block \<open>if chosen_gender == 'Unknown' and fname:\<close> that may ask the classifier.\<close>

definition step_gg :: "(string \<rightharpoonup> entry) \<Rightarrow> detector \<Rightarrow> string \<Rightarrow> decision \<Rightarrow> decision" where
  "step_gg mapping gg fname d =
     (case d of (chosen_gender, chosen_conf, source) \<Rightarrow>
        if chosen_gender = Unknown \<and> fname \<noteq> [] then
          (let use_gg = (case mapping fname of
                           None \<Rightarrow> True
                         | Some (g, conf, tot) \<Rightarrow> conf < CONF_THRESHOLD)
           in if use_gg \<and> GG_AVAILABLE gg then
                (case gg_guess gg fname of (gg_g, gg_conf) \<Rightarrow>
                   let cand_conf = (case mapping fname of
                                      Some (g, conf, tot) \<Rightarrow> conf
                                    | None \<Rightarrow> 0)
                   in if gg_conf \<ge> double (85 / 100) \<or> gg_conf > cand_conf
                      then (gg_g, gg_conf, ''gender-guesser'')
                      else (case mapping fname of
                              Some (g, conf, tot) \<Rightarrow>
                                if cand_conf > gg_conf then (g, cand_conf, ''mapped'') else d
                            | None \<Rightarrow> d))
              else (case mapping fname of
                      Some (g, conf, tot) \<Rightarrow> (g, conf, ''mapped'')
                    | None \<Rightarrow> d))
        else d)"

text \<open>The block \<open>if chosen_gender == 'Unknown' and fname and fname in mapping:\<close>.\<close>

definition step_final :: "(string \<rightharpoonup> entry) \<Rightarrow> string \<Rightarrow> decision \<Rightarrow> decision" where
  "step_final mapping fname d =
     (case d of (chosen_gender, chosen_conf, source) \<Rightarrow>
        if chosen_gender = Unknown \<and> fname \<noteq> [] then
          (case mapping fname of
             Some (g, conf, tot) \<Rightarrow> (g, conf, ''mapped'')
           | None \<Rightarrow> d)
        else d)"

definition decide :: "(string \<times> string \<rightharpoonup> entry) \<Rightarrow> (string \<rightharpoonup> entry) \<Rightarrow> detector
    \<Rightarrow> string \<Rightarrow> string \<Rightarrow> decision" where
  "decide mapping_country mapping gg name country =
     (let fname = get_first_name name
      in step_final mapping fname
           (step_gg mapping gg fname
              (step_mapping mapping_country mapping country fname)))"

subsection \<open>Formatting\<close>

definition digit_char :: "nat \<Rightarrow> char" where
  "digit_char n = char_of (48 + n)"

text \<open>\<open>str\<close> of a non-negative integer.\<close>

fun show_nat :: "nat \<Rightarrow> string" where
  "show_nat n = (if n < 10 then [digit_char n] else show_nat (n div 10) @ [digit_char (n mod 10)])"

declare show_nat.simps [simp del]

text \<open>\<open>"{:.3f}".format(x)\<close>\<close>

definition fmt3 :: "rat \<Rightarrow> string" where
  "fmt3 x =
     (let a = nat (round_half_even (\<bar>x\<bar> * 1000));
          k = a mod 1000
      in (if x < 0 then ''-'' else []) @ show_nat (a div 1000) @ ''.''
           @ [digit_char (k div 100), digit_char ((k div 10) mod 10), digit_char (k mod 10)])"

subsection \<open>Writing the output rows\<close>

text \<open>
  The body of the loop over the input rows: \<open>None\<close> for a row that is skipped (an empty
  row, or a repeated header line), otherwise the row that is written.
\<close>

definition process_row :: "(string \<times> string \<rightharpoonup> entry) \<Rightarrow> (string \<rightharpoonup> entry) \<Rightarrow> detector
    \<Rightarrow> string list \<Rightarrow> string list option" where
  "process_row mapping_country mapping gg row =
     (if row = [] then None
      else if lower (strip (row ! 0)) = ''name'' then None
      else let name = row ! 0;
               country = (if length row > 1 then upper (strip (row ! 1)) else []);
               d = decide mapping_country mapping gg name country
           in case d of (chosen_gender, chosen_conf, source) \<Rightarrow>
                Some (row @ [gender_str chosen_gender, fmt3 chosen_conf, source]))"

definition default_header :: "string list" where
  "default_header = [''Name'', ''Country'', ''Address'', ''City'', ''State'', ''Zip'',
     ''Phone Number'', ''Gender'', ''GenderConfidence'', ''GenderSource'']"

text \<open>The rows of the output file, from the rows of the input file.\<close>

definition annotate :: "(string \<times> string \<rightharpoonup> entry) \<Rightarrow> (string \<rightharpoonup> entry) \<Rightarrow> detector
    \<Rightarrow> string list list \<Rightarrow> string list list" where
  "annotate mapping_country mapping gg rows =
     (case rows of
        [] \<Rightarrow> [default_header]
      | header # rest \<Rightarrow>
          (if header \<noteq> [] then header @ [''Gender'', ''GenderConfidence'', ''GenderSource'']
           else default_header)
          # List.map_filter (process_row mapping_country mapping gg) rest)"

subsection \<open>The audit file\<close>

text \<open>
  The body of the loop over \<open>counts_global.items()\<close>: the row written for a flagged
  name, \<open>None\<close> for a name that is not flagged.
\<close>

definition audit_entry :: "string \<times> counter \<Rightarrow> string list option" where
  "audit_entry item =
     (case item of (fname, ctr) \<Rightarrow>
        let total = total_of ctr
        in if total = 0 then None
           else let most = most_common ctr
                in (case most of
                      [] \<Rightarrow> None
                    | (top_gender, top_count) # _ \<Rightarrow>
                        let second_count = (if length most > 1 then snd (most ! 1) else 0);
                            conf = double (rat_of_nat top_count / rat_of_nat total)
                        in if total < 50 \<or> conf < double (7 / 10)
                              \<or> (length most > 1 \<and> int top_count - int second_count < 3)
                           then Some [fname, gender_str top_gender, show_nat top_count,
                                      show_nat second_count, show_nat total, fmt3 conf]
                           else None))"

definition audit_rows :: "name_counts \<Rightarrow> string list list" where
  "audit_rows counts_global =
     [''first_name'', ''top_gender'', ''top_count'', ''second_count'', ''total_count'',
      ''confidence'']
     # List.map_filter audit_entry counts_global"

subsection \<open>Example data\<close>

text \<open>A reference file without a header: three rows for one name.\<close>

definition reference_alex :: "string list list" where
  "reference_alex = [[''Alex'', ''M''], [''Alex'', ''F''], [''Alex'', ''F'']]"

text \<open>
  A reference file with a country column: under \<open>US\<close> the name is counted three times
  as \<open>F\<close> and twice as \<open>M\<close>, and twice more as \<open>M\<close> without a country.
\<close>

definition reference_xq :: "string list list" where
  "reference_xq = [[''name'', ''gender'', ''country''],
     [''Xq'', ''F'', ''US''], [''Xq'', ''F'', ''US''], [''Xq'', ''F'', ''US''],
     [''Xq'', ''M'', ''US''], [''Xq'', ''M'', ''US''],
     [''Xq'', ''M'', []], [''Xq'', ''M'', []]]"

text \<open>A detector that knows no name: \<open>get_gender\<close> answers \<open>unknown\<close>.\<close>

definition detector_unknown :: "string \<Rightarrow> string" where
  "detector_unknown first = ''unknown''"

text \<open>
  A reference file with a country column: under \<open>US\<close> the name is counted seven times
  with an empty gender and three times as \<open>M\<close>, and sixty times more as \<open>M\<close> in rows
  without a country cell.
\<close>

definition reference_us :: "string list list" where
  "reference_us = [''name'', ''gender'', ''country'']
     # replicate 7 [''Alex'', [], ''US''] @ replicate 3 [''Alex'', ''M'', ''US'']
     @ replicate 60 [''Alex'', ''M'']"

subsection \<open>Notions for the properties\<close>

text \<open>\<open>ctr[g]\<close> of a \<open>Counter\<close>: the count of a label, 0 for a label that is not a key.\<close>

definition cnt :: "counter \<Rightarrow> gender \<Rightarrow> nat" where
  "cnt ctr g = (case map_of ctr g of Some n \<Rightarrow> n | None \<Rightarrow> 0)"

text \<open>
  What the loop over the reference rows maintains: keys are not repeated, and every
  counter under a country is covered, label by label, by the global counter of the same
  name.
\<close>

definition agg_inv :: "name_counts \<times> country_counts \<Rightarrow> bool" where
  "agg_inv st =
     (case st of (cg, cc) \<Rightarrow>
        distinct (map fst cg)
        \<and> (\<forall>f c. map_of cg f = Some c \<longrightarrow> distinct (map fst c))
        \<and> distinct (map fst cc)
        \<and> (\<forall>co d. map_of cc co = Some d \<longrightarrow> distinct (map fst d))
        \<and> (\<forall>co d f c'. map_of cc co = Some d \<longrightarrow> map_of d f = Some c' \<longrightarrow>
              distinct (map fst c')
              \<and> (\<exists>c. map_of cg f = Some c \<and> (\<forall>g. cnt c' g \<le> cnt c g))))"

text \<open>The \<open>Counter\<close> after the labels \<open>ls\<close> were counted into an empty one, in this order.\<close>

definition counter_of :: "gender list \<Rightarrow> counter" where
  "counter_of ls = fold counter_inc ls []"

text \<open>
  The columns and the data rows of a reference file, as the script reads it: a first row
  with a \<open>name\<close> cell fixes the columns and is not counted, any other first row is
  data at the default positions.
\<close>

definition reference_columns :: "string list list \<Rightarrow> columns" where
  "reference_columns rows =
     (case rows of
        [] \<Rightarrow> default_columns
      | first_row # rest \<Rightarrow>
          (case detect_columns first_row of Some cols \<Rightarrow> cols | None \<Rightarrow> default_columns))"

definition reference_data :: "string list list \<Rightarrow> string list list" where
  "reference_data rows =
     (case rows of
        [] \<Rightarrow> []
      | first_row # rest \<Rightarrow> (if detect_columns first_row \<noteq> None then rest else rows))"

text \<open>
  The labels that the reference rows show for a first name, in the order of the rows.
\<close>

definition labels_for :: "columns \<Rightarrow> string \<Rightarrow> string list list \<Rightarrow> gender list" where
  "labels_for cols fname rows =
     map (\<lambda>row. normalize_gender (field row (gender_idx cols)))
       (filter (\<lambda>row. row \<noteq> [] \<and> get_first_name (field row (name_idx cols)) = fname) rows)"

definition observed_labels :: "string list list \<Rightarrow> string \<Rightarrow> gender list" where
  "observed_labels rows fname = labels_for (reference_columns rows) fname (reference_data rows)"

text \<open>
  The counter of a first name under a country, \<open>counts_by_country[country][fname]\<close>,
  if both keys are present.
\<close>

definition country_counter :: "country_counts \<Rightarrow> string \<Rightarrow> string \<Rightarrow> counter option" where
  "country_counter cc country fname =
     (case map_of cc country of None \<Rightarrow> None | Some d \<Rightarrow> map_of d fname)"

text \<open>
  The labels that the reference rows show for a first name under a country, in the order
  of the rows. Without a country column no row is counted under a country.
\<close>

definition labels_for_country :: "columns \<Rightarrow> string \<Rightarrow> string \<Rightarrow> string list list \<Rightarrow> gender list" where
  "labels_for_country cols country fname rows =
     (case country_idx cols of
        None \<Rightarrow> []
      | Some ci \<Rightarrow>
          map (\<lambda>row. normalize_gender (field row (gender_idx cols)))
            (filter (\<lambda>row. row \<noteq> [] \<and> get_first_name (field row (name_idx cols)) = fname
                        \<and> upper (strip (field row ci)) = country) rows))"

definition observed_labels_country :: "string list list \<Rightarrow> string \<Rightarrow> string \<Rightarrow> gender list" where
  "observed_labels_country rows country fname =
     labels_for_country (reference_columns rows) country fname (reference_data rows)"

text \<open>
  The input rows that the decision loop processes, in their order: the rows after the
  first one that are not empty and are not a repeated header line.
\<close>

definition data_rows :: "string list list \<Rightarrow> string list list" where
  "data_rows rows =
     filter (\<lambda>row. row \<noteq> [] \<and> lower (strip (row ! 0)) \<noteq> ''name'') (tl rows)"

text \<open>
  The flag rule in the words of the specification, to be compared with \<open>audit_entry\<close>:
  the counts sorted in descending order; a name is flagged if the total is below 50, or
  the share of the top count is below 0.7, or at least two distinct labels were observed
  and the top two counts differ by less than 3. The share and 0.7 are floats, as
  everywhere.
\<close>

definition audit_flag_spec :: "counter \<Rightarrow> bool" where
  "audit_flag_spec ctr =
     (let total = total_of ctr;
          counts = rev (sort (map snd ctr));
          top_count = counts ! 0
      in total < 50
         \<or> double (rat_of_nat top_count / rat_of_nat total) < double (7 / 10)
         \<or> (card (fst ` set ctr) \<ge> 2 \<and> int top_count - int (counts ! 1) < 3))"

subsection \<open>Further example data\<close>

text \<open>Two reference rows for one name, with one label each.\<close>

definition reference_fm :: "string list list" where
  "reference_fm = [[''Alex'', ''F''], [''Alex'', ''M'']]"

text \<open>The same two rows under a header with a country column, in both orders.\<close>

definition reference_tie :: "string list list" where
  "reference_tie = [[''Name'', ''Gender'', ''Country''],
                    [''Alex'', ''F'', ''us''], [''Alex'', ''M'', ''US'']]"

definition reference_tie_rev :: "string list list" where
  "reference_tie_rev = [[''Name'', ''Gender'', ''Country''],
                        [''Alex'', ''M'', ''US''], [''Alex'', ''F'', ''us'']]"

text \<open>
  An input file: a header, a data row, an empty row, a repeated header line and another
  data row.
\<close>

definition input_alex :: "string list list" where
  "input_alex = [[''Name'', ''Country''], [''Alex Smith'', ''US''], [], [''name''], [''K Lee'']]"

section \<open>Properties\<close>

subsection \<open>Rounding to doubles\<close>

text \<open>The rounding agrees with the floats of Python on the numbers used below.\<close>

lemma double_values:
  "double (7 / 10) = 3152519739159347 / 4503599627370496"
  "double (65 / 100) = 5854679515581645 / 9007199254740992"
  "double (85 / 100) = 7656119366529843 / 9007199254740992"
  "double (8 / 10) = 3602879701896397 / 4503599627370496"
  "double (525 / 1000) = 4728779608739021 / 9007199254740992"
  "double (3 / 4) = 3 / 4"
  "double (3 / 4 * double (7 / 10)) = 1182194902184755 / 2251799813685248"
  "double (2 / 3) = 6004799503160661 / 9007199254740992"
  "double (double (2 / 3) * double (7 / 10)) = 8406719304424925 / 18014398509481984"
  "double (5 / 10) = 1 / 2"
  "double 1 = 1"
  by code_simp+

lemma round_half_even_le:
  assumes "q \<le> of_int N"
  shows "round_half_even q \<le> N"
proof -
  have fl: "\<lfloor>q\<rfloor> \<le> N" using assms by (simp add: floor_le_iff le_less_trans)
  show ?thesis
  proof (cases "\<lfloor>q\<rfloor> = N")
    case True
    then have "q - of_int \<lfloor>q\<rfloor> \<le> 0" using assms by simp
    then show ?thesis using True by (simp add: round_half_even_def Let_def)
  next
    case False
    then have "\<lfloor>q\<rfloor> + 1 \<le> N" using fl by simp
    then show ?thesis by (auto simp: round_half_even_def Let_def)
  qed
qed

lemma round_half_even_ge:
  assumes "of_int N \<le> q"
  shows "N \<le> round_half_even q"
proof -
  have "N \<le> \<lfloor>q\<rfloor>" using assms by (simp add: le_floor_iff)
  then show ?thesis by (auto simp: round_half_even_def Let_def)
qed

lemma bitlen_mono: "a \<le> b \<Longrightarrow> bitlen a \<le> bitlen b"
  by (simp add: bitlen_def floorlog_mono)

lemma quotient_of_abs_pos:
  assumes "q \<noteq> 0" and "quotient_of \<bar>q\<bar> = (n, d)"
  shows "n > 0" "d > 0" "\<bar>q\<bar> = of_int n / of_int d"
proof -
  show d: "d > 0" using assms(2) by (rule quotient_of_denom_pos)
  show eq: "\<bar>q\<bar> = of_int n / of_int d" using assms(2) by (rule quotient_of_div)
  have "\<bar>q\<bar> > 0" using assms(1) by simp
  then show "n > 0" using d eq by (simp add: zero_less_divide_iff)
qed

lemma binade_le_zero:
  assumes "q \<noteq> 0" and "\<bar>q\<bar> \<le> 1"
  shows "binade q \<le> 0"
proof -
  obtain n d where nd: "quotient_of \<bar>q\<bar> = (n, d)" by (cases "quotient_of \<bar>q\<bar>")
  note p = quotient_of_abs_pos [OF assms(1) nd]
  have "n \<le> d" using assms(2) p by (simp add: divide_le_eq_1)
  then have "bitlen n - bitlen d \<le> 0" using bitlen_mono [of n d] by simp
  then show ?thesis by (auto simp: binade_def nd Let_def)
qed

lemma double_nonneg: "0 \<le> q \<Longrightarrow> 0 \<le> double q"
  by (auto simp: double_def Let_def sgn_if intro!: mult_nonneg_nonneg round_half_even_ge)

lemma double_le_one:
  assumes "0 \<le> q" and "q \<le> 1"
  shows "double q \<le> 1"
proof (cases "q = 0")
  case True
  then show ?thesis by (simp add: double_def)
next
  case False
  then have pos: "q > 0" using assms(1) by simp
  let ?e = "binade q"
  have e: "?e \<le> 0" using binade_le_zero [of q] False assms by simp
  then have int: "(2::rat) powi (52 - ?e) = of_int (2 ^ nat (52 - ?e))"
    by (simp add: power_int_def)
  have "q * 2 powi (52 - ?e) \<le> 1 * 2 powi (52 - ?e)"
    using assms(2) by (intro mult_right_mono) simp_all
  then have "round_half_even (q * 2 powi (52 - ?e)) \<le> 2 ^ nat (52 - ?e)"
    using int by (intro round_half_even_le) simp
  then have "(of_int (round_half_even (q * 2 powi (52 - ?e))) :: rat) \<le> 2 powi (52 - ?e)"
    unfolding int by (simp only: of_int_le_iff)
  then have "rat_of_int (round_half_even (q * 2 powi (52 - ?e))) * 2 powi (?e - 52)
      \<le> 2 powi (52 - ?e) * 2 powi (?e - 52)"
    by (intro mult_right_mono) simp_all
  also have "\<dots> = (1 :: rat)"
    by (simp flip: power_int_add)
  finally show ?thesis using pos by (simp add: double_def Let_def)
qed

text \<open>The exponent is the one of the binade, and the significand is the nearest integer.\<close>

lemma bitlen_powi:
  assumes "n > 0"
  shows "(2 :: rat) powi (bitlen n - 1) \<le> of_int n" "of_int n < (2 :: rat) powi bitlen n"
proof -
  have pos: "bitlen n \<ge> 1" using assms bitlen_eq_zero_iff [of n] bitlen_nonneg [of n] by linarith
  from bitlen_bounds [OF assms]
  have lo: "2 ^ nat (bitlen n - 1) \<le> n" and hi: "n < 2 ^ nat (bitlen n)" by simp_all
  have "(of_int (2 ^ nat (bitlen n - 1)) :: rat) \<le> of_int n"
    using lo by (simp only: of_int_le_iff)
  then show "(2 :: rat) powi (bitlen n - 1) \<le> of_int n"
    using pos by (simp add: power_int_def)
  have "(of_int n :: rat) < of_int (2 ^ nat (bitlen n))"
    using hi by (simp only: of_int_less_iff)
  then show "of_int n < (2 :: rat) powi bitlen n"
    using pos by (simp add: power_int_def)
qed

lemma binade_bounds:
  assumes "q \<noteq> 0"
  shows "2 powi binade q \<le> \<bar>q\<bar>" and "\<bar>q\<bar> < 2 powi (binade q + 1)"
proof -
  obtain n d where nd: "quotient_of \<bar>q\<bar> = (n, d)" by (cases "quotient_of \<bar>q\<bar>")
  note p = quotient_of_abs_pos [OF assms nd]
  define k where "k = bitlen n - bitlen d"
  have n: "(2 :: rat) powi (bitlen n - 1) \<le> of_int n" "of_int n < (2 :: rat) powi bitlen n"
    using bitlen_powi [OF p(1)] by simp_all
  have d: "(2 :: rat) powi (bitlen d - 1) \<le> of_int d" "of_int d < (2 :: rat) powi bitlen d"
    using bitlen_powi [OF p(2)] by simp_all
  have npos: "(0 :: rat) < of_int n" and dpos: "(0 :: rat) < of_int d" using p by simp_all
  have "rat_of_int n / of_int d \<le> of_int n / 2 powi (bitlen d - 1)"
    using d(1) npos dpos by (intro divide_left_mono mult_pos_pos) simp_all
  also have "\<dots> < 2 powi bitlen n / 2 powi (bitlen d - 1)"
    using n(2) by (intro divide_strict_right_mono) simp_all
  also have "\<dots> = 2 powi (k + 1)"
    by (simp add: k_def power_int_diff [symmetric] algebra_simps)
  finally have up: "\<bar>q\<bar> < 2 powi (k + 1)" using p(3) by simp
  have "(2 :: rat) powi (k - 1) = 2 powi (bitlen n - 1) / 2 powi bitlen d"
    by (simp add: k_def power_int_diff [symmetric] algebra_simps)
  also have "\<dots> \<le> of_int n / 2 powi bitlen d"
    using n(1) by (intro divide_right_mono) simp_all
  also have "\<dots> < of_int n / of_int d"
    using d(2) npos dpos by (intro divide_strict_left_mono) simp_all
  finally have lo: "2 powi (k - 1) < \<bar>q\<bar>" using p(3) by simp
  have b: "binade q = (if 2 powi k \<le> \<bar>q\<bar> then k else k - 1)"
    by (simp add: binade_def nd Let_def k_def)
  show "2 powi binade q \<le> \<bar>q\<bar>" using lo by (simp add: b)
  show "\<bar>q\<bar> < 2 powi (binade q + 1)" using up by (auto simp: b)
qed

lemma round_half_even_close:
  "\<bar>of_int (round_half_even x) - x\<bar> \<le> 1 / 2"
proof -
  define r where "r = x - of_int \<lfloor>x\<rfloor>"
  have r: "0 \<le> r" "r < 1" unfolding r_def by linarith+
  have x: "x = of_int \<lfloor>x\<rfloor> + r" by (simp add: r_def)
  have "round_half_even x = (if r < 1 / 2 then \<lfloor>x\<rfloor> else if r > 1 / 2 then \<lfloor>x\<rfloor> + 1
      else if even \<lfloor>x\<rfloor> then \<lfloor>x\<rfloor> else \<lfloor>x\<rfloor> + 1)"
    by (simp add: round_half_even_def Let_def r_def)
  then have "of_int (round_half_even x) - x = - r \<or> of_int (round_half_even x) - x = 1 - r"
    "r > 1 / 2 \<longrightarrow> of_int (round_half_even x) - x = 1 - r"
    "r < 1 / 2 \<longrightarrow> of_int (round_half_even x) - x = - r"
    using x by (auto split: if_splits)
  then show ?thesis using r by (cases "r < 1 / 2"; cases "r > 1 / 2") auto
qed

text \<open>The relative error of the rounding is at most \<open>2 ^ -53\<close>.\<close>

lemma double_error:
  "\<bar>double q - q\<bar> \<le> \<bar>q\<bar> / 2 ^ 53"
proof (cases "q = 0")
  case True
  then show ?thesis by (simp add: double_def)
next
  case False
  define e where "e = binade q"
  define m where "m = round_half_even (\<bar>q\<bar> * 2 powi (52 - e))"
  have dq: "double q = sgn q * of_int m * 2 powi (e - 52)"
    using False by (simp add: double_def Let_def e_def m_def)
  have q: "q = sgn q * \<bar>q\<bar>" by (simp add: sgn_if)
  have one: "(2 :: rat) powi (52 - e) * 2 powi (e - 52) = 1"
    by (simp flip: power_int_add)
  have "double q - q = sgn q * (of_int m - \<bar>q\<bar> * 2 powi (52 - e)) * 2 powi (e - 52)"
  proof -
    have "sgn q * (of_int m - \<bar>q\<bar> * 2 powi (52 - e)) * 2 powi (e - 52)
        = sgn q * of_int m * 2 powi (e - 52) - sgn q * \<bar>q\<bar> * (2 powi (52 - e) * 2 powi (e - 52))"
      by (simp add: algebra_simps)
    also have "\<dots> = double q - q" unfolding one dq by (simp add: sgn_if)
    finally show ?thesis by simp
  qed
  then have "\<bar>double q - q\<bar> = \<bar>of_int m - \<bar>q\<bar> * 2 powi (52 - e)\<bar> * 2 powi (e - 52)"
    using False by (simp add: abs_mult sgn_if)
  also have "\<dots> \<le> 1 / 2 * 2 powi (e - 52)"
    unfolding m_def by (intro mult_right_mono round_half_even_close) simp
  also have "\<dots> = 2 powi e / 2 ^ 53"
    by (simp add: power_int_diff)
  also have "\<dots> \<le> \<bar>q\<bar> / 2 ^ 53"
    using binade_bounds(1) [OF False] by (intro divide_right_mono) (simp_all add: e_def)
  finally show ?thesis .
qed

text \<open>
  For totals below \<open>2 ^ 49\<close> the comparison of the float share with the float 0.7 is
  the comparison of the numbers.
\<close>

lemma share_below_exact:
  fixes a b :: nat
  assumes "0 < b" and "a \<le> b" and "b < 2 ^ 49"
  shows "(double (rat_of_nat a / rat_of_nat b) < double (7 / 10))
       = (rat_of_nat a / rat_of_nat b < 7 / 10)"
proof -
  define q where "q = rat_of_nat a / rat_of_nat b"
  have D: "double (7 / 10) = 3152519739159347 / 4503599627370496"
    by (rule double_values(1))
  have bpos: "(0 :: rat) < of_nat b" using assms(1) by simp
  have q01: "0 \<le> q" "q \<le> 1" using assms(1,2) by (simp_all add: q_def)
  have "\<bar>double q - q\<bar> \<le> \<bar>q\<bar> / 2 ^ 53" by (rule double_error)
  also have "\<dots> \<le> 1 / 2 ^ 53" using q01 by (intro divide_right_mono) simp_all
  finally have err: "\<bar>double q - q\<bar> \<le> 1 / 2 ^ 53" .
  then have e1: "double q - q \<le> 1 / 2 ^ 53" and e2: "- (double q - q) \<le> 1 / 2 ^ 53"
    using abs_le_iff [of "double q - q" "1 / 2 ^ 53"] by blast+
  have "rat_of_nat b < of_nat (2 ^ 49)" using assms(3) by (simp only: of_nat_less_iff)
  then have b49: "rat_of_nat b < 2 ^ 49" by simp
  have gap: "1 / (10 * 2 ^ 49) < 1 / (10 * rat_of_nat b)"
    using b49 bpos by (intro divide_strict_left_mono) simp_all
  have "(double q < double (7 / 10)) = (q < 7 / 10)"
  proof (cases "q < 7 / 10")
    case True
    then have "rat_of_nat (10 * a) < rat_of_nat (7 * b)"
      using bpos by (simp add: q_def field_simps)
    then have "10 * a < 7 * b" by (simp only: of_nat_less_iff)
    then have "10 * a + 1 \<le> 7 * b" by simp
    then have "rat_of_nat (10 * a + 1) \<le> rat_of_nat (7 * b)" by (simp only: of_nat_le_iff)
    then have h: "10 * rat_of_nat a \<le> 7 * rat_of_nat b - 1" by simp
    have "q = (10 * rat_of_nat a) / (10 * rat_of_nat b)" by (simp add: q_def)
    also have "\<dots> \<le> (7 * rat_of_nat b - 1) / (10 * rat_of_nat b)"
      using h bpos by (intro divide_right_mono) simp_all
    also have "\<dots> = 7 / 10 - 1 / (10 * rat_of_nat b)"
      using bpos by (simp add: diff_divide_distrib)
    finally have "q \<le> 7 / 10 - 1 / (10 * rat_of_nat b)" .
    then have "q < 7 / 10 - 1 / (10 * 2 ^ 49)" using gap by simp
    moreover have "double q \<le> q + 1 / 2 ^ 53" using e1 by simp
    ultimately have "double q < 3152519739159347 / 4503599627370496" by simp
    then show ?thesis using True by (simp add: D)
  next
    case False
    show ?thesis
    proof (cases "q = 7 / 10")
      case True
      show ?thesis unfolding True by simp
    next
      case ne: False
      then have "7 / 10 < q" using False by simp
      then have "rat_of_nat (7 * b) < rat_of_nat (10 * a)"
        using bpos by (simp add: q_def field_simps)
      then have "7 * b < 10 * a" by (simp only: of_nat_less_iff)
      then have "7 * b + 1 \<le> 10 * a" by simp
      then have "rat_of_nat (7 * b + 1) \<le> rat_of_nat (10 * a)" by (simp only: of_nat_le_iff)
      then have h: "7 * rat_of_nat b + 1 \<le> 10 * rat_of_nat a" by simp
      have "7 / 10 + 1 / (10 * rat_of_nat b) = (7 * rat_of_nat b + 1) / (10 * rat_of_nat b)"
        using bpos by (simp add: add_divide_distrib)
      also have "\<dots> \<le> (10 * rat_of_nat a) / (10 * rat_of_nat b)"
        using h bpos by (intro divide_right_mono) simp_all
      also have "\<dots> = q" by (simp add: q_def)
      finally have "7 / 10 + 1 / (10 * rat_of_nat b) \<le> q" .
      then have "7 / 10 + 1 / (10 * 2 ^ 49) < q" using gap by simp
      moreover have "q - 1 / 2 ^ 53 \<le> double q" using e2 by simp
      ultimately have "\<not> double q < 3152519739159347 / 4503599627370496" by simp
      then show ?thesis using False by (simp add: D)
    qed
  qed
  then show ?thesis unfolding q_def .
qed

text \<open>Comparisons of the floats that occur in the examples.\<close>

lemma double_compare:
  "double (double (2 / 3) * double (7 / 10)) < CONF_THRESHOLD"
  "\<not> CONF_THRESHOLD \<le> double (double (2 / 3) * double (7 / 10))"
  "CONF_THRESHOLD \<le> double (7 / 10)"
  "\<not> double (7 / 10) < CONF_THRESHOLD"
  "CONF_THRESHOLD \<le> double (9 / 10)"
  "\<not> double (9 / 10) < CONF_THRESHOLD"
  "double (3 / 5) < CONF_THRESHOLD"
  "\<not> CONF_THRESHOLD \<le> double (3 / 5)"
  "double (4 / 7) < CONF_THRESHOLD"
  "\<not> CONF_THRESHOLD \<le> double (4 / 7)"
  "\<not> double (17 / 20) \<le> 0"
  "0 < double (4 / 7)"
  "\<not> double (4 / 7) < 0"
  "double (double (2 / 3) * double (7 / 10)) \<noteq> double (2 / 3)"
  "\<not> double (500 / 501) < double (7 / 10)"
  by code_simp+

subsection \<open>Evaluation of the examples\<close>

lemma aggregate_reference_alex:
  "aggregate reference_alex = ([(''alex'', [(Male, 1), (Female, 2)])], [])"
  unfolding reference_alex_def by code_simp

lemma most_common_alex: "most_common [(Male, 1), (Female, 2)] = [(Female, 2), (Male, 1)]"
  by code_simp

lemma total_of_alex: "total_of [(Male, 1), (Female, 2)] = 3"
  by code_simp

lemma entry_of_alex: "entry_of [(Male, 1), (Female, 2)] = Some (Female, double (double (2 / 3) * double (7 / 10)), 3)"
  by code_simp

lemma fmt3_alex: "fmt3 (double (2 / 3)) = ''0.667''" "fmt3 (double (double (2 / 3) * double (7 / 10))) = ''0.467''"
  by code_simp+

lemma show_nat_small: "show_nat 1 = ''1''" "show_nat 2 = ''2''" "show_nat 3 = ''3''"
  by code_simp+

lemma first_name_alex: "get_first_name ''Alex Smith'' = ''alex''"
  by code_simp

lemma header_alex: "lower (strip ''Alex Smith'') \<noteq> ''name''"
  by code_simp

lemma upper_us: "upper (strip ''US'') = ''US''"
  by code_simp

lemma mapping_alex:
  "build_mapping [(''alex'', [(Male, 1), (Female, 2)])] = [''alex'' \<mapsto> (Female, double (double (2 / 3) * double (7 / 10)), 3)]"
  by (simp add: build_mapping_def entry_of_alex del: One_nat_def)

lemma mapping_country_empty: "build_mapping_country [] = Map.empty"
  by (simp add: build_mapping_country_def)

lemma audit_alex:
  "audit_rows [(''alex'', [(Male, 1), (Female, 2)])] =
     [[''first_name'', ''top_gender'', ''top_count'', ''second_count'', ''total_count'',
       ''confidence''],
      [''alex'', ''F'', ''2'', ''1'', ''3'', ''0.667'']]"
  by (simp add: audit_rows_def audit_entry_def total_of_alex most_common_alex fmt3_alex
      show_nat_small del: One_nat_def)

lemma decide_alex:
  "decide Map.empty [''alex'' \<mapsto> (Female, double (double (2 / 3) * double (7 / 10)), 3)] None ''Alex Smith'' ''US''
     = (Female, double (double (2 / 3) * double (7 / 10)), ''mapped'')"
  by (simp add: decide_def first_name_alex step_mapping_def step_gg_def step_final_def
      undecided_def double_compare GG_AVAILABLE_def)

lemma row_alex:
  "process_row Map.empty [''alex'' \<mapsto> (Female, double (double (2 / 3) * double (7 / 10)), 3)] None [''Alex Smith'', ''US'']
     = Some [''Alex Smith'', ''US'', ''F'', ''0.467'', ''mapped'']"
  by (simp add: process_row_def header_alex upper_us decide_alex fmt3_alex)

lemma aggregate_reference_xq:
  "aggregate reference_xq =
     ([(''xq'', [(Female, 3), (Male, 4)])], [(''US'', [(''xq'', [(Female, 3), (Male, 2)])])])"
  unfolding reference_xq_def by code_simp

lemma entry_of_xq:
  "entry_of [(Female, 3), (Male, 4)] = Some (Male, double (4 / 7), 7)"
  "entry_of [(Female, 3), (Male, 2)] = Some (Female, double (3 / 5), 5)"
  by code_simp+

lemma mapping_xq:
  "build_mapping [(''xq'', [(Female, 3), (Male, 4)])] = [''xq'' \<mapsto> (Male, double (4 / 7), 7)]"
  by (simp add: build_mapping_def entry_of_xq del: One_nat_def)

lemma mapping_country_xq:
  "build_mapping_country [(''US'', [(''xq'', [(Female, 3), (Male, 2)])])]
     = [(''US'', ''xq'') \<mapsto> (Female, double (3 / 5), 5)]"
  by (simp add: build_mapping_country_def entry_of_xq del: One_nat_def)

lemma first_name_xq: "get_first_name ''Xq Smith'' = ''xq''"
  by code_simp

subsection \<open>The end-to-end scenario\<close>

text \<open>
  Claim C1, as the script computes it. The three reference rows give the counts
  \<open>{M: 1, F: 2}\<close> for \<open>alex\<close>. The total 3 is below \<open>MIN_COUNT_FOR_CONFIDENCE\<close> and the
  share 2/3 is below 1, so the stored confidence is the float product of 2/3 and 0.7,
  which is 0.4666666666666666 and is written \<open>0.467\<close>: the global entry is
  (Female, 0.4666666666666666, 3). The audit file lists the name with the unpenalised
  share \<open>0.667\<close>. The input row \<open>("Alex Smith", "US")\<close>, with no country data and
  without the classifier, is decided as (Female, 0.4666666666666666, \<open>mapped\<close>) and
  written with the confidence \<open>0.467\<close>.
\<close>

theorem scenario_alex:
  "build_mapping (fst (aggregate reference_alex)) ''alex'' = Some (Female, double (double (2 / 3) * double (7 / 10)), 3)
   \<and> build_mapping_country (snd (aggregate reference_alex)) = Map.empty
   \<and> audit_rows (fst (aggregate reference_alex)) =
       [[''first_name'', ''top_gender'', ''top_count'', ''second_count'', ''total_count'',
         ''confidence''],
        [''alex'', ''F'', ''2'', ''1'', ''3'', ''0.667'']]
   \<and> decide (build_mapping_country (snd (aggregate reference_alex)))
         (build_mapping (fst (aggregate reference_alex))) None ''Alex Smith'' ''US''
       = (Female, double (double (2 / 3) * double (7 / 10)), ''mapped'')
   \<and> process_row (build_mapping_country (snd (aggregate reference_alex)))
         (build_mapping (fst (aggregate reference_alex))) None [''Alex Smith'', ''US'']
       = Some [''Alex Smith'', ''US'', ''F'', ''0.467'', ''mapped'']"
  by (simp add: aggregate_reference_alex mapping_alex mapping_country_empty audit_alex
      decide_alex row_alex del: One_nat_def)

text \<open>
  Claim C1 as stated fails: the entry for \<open>alex\<close> is not (Female, 2/3, 3), and neither
  the stored confidence nor the confidence of the decision is written \<open>0.667\<close>.
\<close>

theorem scenario_alex_counterexample:
  "build_mapping (fst (aggregate reference_alex)) ''alex'' \<noteq> Some (Female, double (2 / 3), 3)
   \<and> fmt3 (fst (snd (the (build_mapping (fst (aggregate reference_alex)) ''alex''))))
       \<noteq> ''0.667''
   \<and> fmt3 (fst (snd (decide (build_mapping_country (snd (aggregate reference_alex)))
         (build_mapping (fst (aggregate reference_alex))) None ''Alex Smith'' ''US'')))
       \<noteq> ''0.667''"
  by (simp add: aggregate_reference_alex mapping_alex mapping_country_empty decide_alex
      fmt3_alex double_compare del: One_nat_def)

subsection \<open>Name normalisation\<close>

text \<open>
  Claim C6: \<open>get_first_name\<close> returns the empty token for \<open>K N Johnson\<close> (the first token
  is an initial and the second token has length 1 too), \<open>johnson\<close> for \<open>K Johnson\<close>, and
  \<open>mary\<close> for \<open>Mary Ann Smith\<close>.
\<close>

theorem get_first_name_initials:
  "get_first_name ''K N Johnson'' = []
   \<and> get_first_name ''K Johnson'' = ''johnson''
   \<and> get_first_name ''Mary Ann Smith'' = ''mary''"
  by code_simp

subsection \<open>The low-sample penalty\<close>

text \<open>
  Claim C5, as the script computes it: the counts \<open>{M: 8, F: 2}\<close> (total 10, not below
  5) give the float 0.8 without penalty; the counts \<open>{M: 3, F: 1}\<close> (total 4, share 0.75
  below 1) give the product of the floats 0.75 and 0.7, which is 0.5249999999999999,
  the double just below the float 0.525, and is written \<open>0.525\<close>. Both hold in either
  insertion order of the two labels.
\<close>

theorem entry_of_penalty:
  "entry_of [(Male, 8), (Female, 2)] = Some (Male, double (8 / 10), 10)
   \<and> entry_of [(Female, 2), (Male, 8)] = Some (Male, double (8 / 10), 10)
   \<and> entry_of [(Male, 3), (Female, 1)]
       = Some (Male, double (double (3 / 4) * double (7 / 10)), 4)
   \<and> entry_of [(Female, 1), (Male, 3)]
       = Some (Male, double (double (3 / 4) * double (7 / 10)), 4)
   \<and> double (double (3 / 4) * double (7 / 10)) = 1182194902184755 / 2251799813685248
   \<and> double (525 / 1000) - double (double (3 / 4) * double (7 / 10)) = 1 / 2 ^ 53
   \<and> fmt3 (double (8 / 10)) = ''0.800''
   \<and> fmt3 (double (double (3 / 4) * double (7 / 10))) = ''0.525''"
  by code_simp

text \<open>
  Claim C5 as stated fails: the confidence stored for \<open>{M: 3, F: 1}\<close> is not 0.525,
  neither the number nor the float.
\<close>

theorem entry_of_penalty_counterexample:
  "entry_of [(Male, 3), (Female, 1)] \<noteq> Some (Male, 525 / 1000, 4)
   \<and> entry_of [(Male, 3), (Female, 1)] \<noteq> Some (Male, double (525 / 1000), 4)
   \<and> fst (snd (the (entry_of [(Male, 3), (Female, 1)]))) < double (525 / 1000)"
  by code_simp

subsection \<open>Output rows\<close>

text \<open>
  The confidence column: the exact value of the float, rounded to three decimals. The
  floats 57/80 and 43/80 lie above and below the middle of two neighbours and are
  written \<open>0.713\<close> and \<open>0.537\<close>; 7/16 and 9/16 are exact middles and go to the even
  neighbour.
\<close>

lemma fmt3_values:
  "fmt3 (double (57 / 80)) = ''0.713''" "fmt3 (double (43 / 80)) = ''0.537''"
  "fmt3 (double (7 / 16)) = ''0.438''" "fmt3 (double (9 / 16)) = ''0.562''"
  "fmt3 0 = ''0.000''" "fmt3 1 = ''1.000''"
  by code_simp+

text \<open>The body of the loop: a row that is not skipped is written with three more cells.\<close>

lemma process_row_appends:
  assumes "row \<noteq> []" and "lower (strip (row ! 0)) \<noteq> ''name''"
  shows "\<exists>out chosen_gender chosen_conf source.
           process_row mapping_country mapping gg row = Some out
           \<and> out = row @ [gender_str chosen_gender, fmt3 chosen_conf, source]
           \<and> take (length row) out = row
           \<and> length out = length row + 3
           \<and> (chosen_gender, chosen_conf, source)
               = decide mapping_country mapping gg (row ! 0)
                   (if length row > 1 then upper (strip (row ! 1)) else [])"
  using assms by (auto simp add: process_row_def Let_def split: prod.splits)

lemma process_row_None_iff:
  "(process_row mapping_country mapping gg row = None)
     = (row = [] \<or> lower (strip (row ! 0)) = ''name'')"
  by (auto simp: process_row_def Let_def split: prod.splits)

text \<open>The rows of the output file after its header row: one for every processed row.\<close>

lemma tl_annotate:
  "tl (annotate mapping_country mapping gg rows)
     = map (\<lambda>row. the (process_row mapping_country mapping gg row)) (data_rows rows)"
proof (cases rows)
  case Nil
  then show ?thesis by (simp add: annotate_def data_rows_def)
next
  case (Cons header rest)
  have "(\<lambda>row. process_row mapping_country mapping gg row \<noteq> None)
      = (\<lambda>row. row \<noteq> [] \<and> lower (strip (row ! 0)) \<noteq> ''name'')"
    by (simp add: process_row_None_iff fun_eq_iff)
  then show ?thesis
    by (simp add: annotate_def Cons data_rows_def List.map_filter_def comp_def)
qed

lemma data_rows_input_alex: "data_rows input_alex = [[''Alex Smith'', ''US''], [''K Lee'']]"
  unfolding input_alex_def by code_simp

text \<open>
  Claim C9: the output file has, after its header row, exactly one row for every input
  row that the decision loop processes (a row after the first one that is not empty and
  is not a repeated header line), in the same order; and that output row is the input
  row, unchanged and in its order, followed by exactly three cells: the label, the
  formatted confidence and the source of the decision taken for that row.
\<close>

theorem annotate_appends:
  "length (tl (annotate mapping_country mapping gg rows)) = length (data_rows rows)
   \<and> (\<forall>i < length (data_rows rows).
        \<exists>chosen_gender chosen_conf source.
          tl (annotate mapping_country mapping gg rows) ! i
            = data_rows rows ! i @ [gender_str chosen_gender, fmt3 chosen_conf, source]
          \<and> take (length (data_rows rows ! i))
                (tl (annotate mapping_country mapping gg rows) ! i) = data_rows rows ! i
          \<and> length (tl (annotate mapping_country mapping gg rows) ! i)
              = length (data_rows rows ! i) + 3
          \<and> (chosen_gender, chosen_conf, source)
              = decide mapping_country mapping gg (data_rows rows ! i ! 0)
                  (if length (data_rows rows ! i) > 1
                   then upper (strip (data_rows rows ! i ! 1)) else []))"
proof (intro conjI allI impI)
  show "length (tl (annotate mapping_country mapping gg rows)) = length (data_rows rows)"
    by (simp add: tl_annotate)
next
  fix i assume i: "i < length (data_rows rows)"
  let ?row = "data_rows rows ! i"
  have "?row \<in> set (data_rows rows)" using i by simp
  then have ne: "?row \<noteq> []" and nh: "lower (strip (?row ! 0)) \<noteq> ''name''"
    by (simp_all add: data_rows_def)
  have out: "tl (annotate mapping_country mapping gg rows) ! i
      = the (process_row mapping_country mapping gg ?row)"
    using i by (simp add: tl_annotate)
  from process_row_appends [OF ne nh, of mapping_country mapping gg]
  obtain out0 g c s where p: "process_row mapping_country mapping gg ?row = Some out0"
    and o: "out0 = ?row @ [gender_str g, fmt3 c, s]"
    and dec: "(g, c, s) = decide mapping_country mapping gg (?row ! 0)
                  (if length ?row > 1 then upper (strip (?row ! 1)) else [])"
    by blast
  have eq: "tl (annotate mapping_country mapping gg rows) ! i
      = ?row @ [gender_str g, fmt3 c, s]"
    using out p o by simp
  show "\<exists>chosen_gender chosen_conf source.
          tl (annotate mapping_country mapping gg rows) ! i
            = ?row @ [gender_str chosen_gender, fmt3 chosen_conf, source]
          \<and> take (length ?row) (tl (annotate mapping_country mapping gg rows) ! i) = ?row
          \<and> length (tl (annotate mapping_country mapping gg rows) ! i) = length ?row + 3
          \<and> (chosen_gender, chosen_conf, source)
              = decide mapping_country mapping gg (?row ! 0)
                  (if length ?row > 1 then upper (strip (?row ! 1)) else [])"
    unfolding eq using dec
    by (intro exI [of _ g] exI [of _ c] exI [of _ s]) simp
qed

theorem annotate_appends_witness:
  "(0 :: nat) < length (data_rows input_alex)
   \<and> data_rows input_alex ! 0 = [''Alex Smith'', ''US'']
   \<and> length (tl (annotate Map.empty [''alex'' \<mapsto> (Female, double (double (2 / 3) * double (7 / 10)), 3)]
         None input_alex)) = 2
   \<and> (\<exists>chosen_gender chosen_conf source.
         tl (annotate Map.empty [''alex'' \<mapsto> (Female, double (double (2 / 3) * double (7 / 10)), 3)]
           None input_alex) ! 0
           = [''Alex Smith'', ''US''] @ [gender_str chosen_gender, fmt3 chosen_conf, source])"
proof -
  have h: "(0 :: nat) < length (data_rows input_alex)"
    by (simp add: data_rows_input_alex)
  have d: "data_rows input_alex ! 0 = [''Alex Smith'', ''US'']"
    by (simp add: data_rows_input_alex)
  have l: "length (data_rows input_alex) = 2"
    by (simp add: data_rows_input_alex)
  from annotate_appends [of Map.empty
      "[''alex'' \<mapsto> (Female, double (double (2 / 3) * double (7 / 10)), 3)]" None input_alex]
  have len: "length (tl (annotate Map.empty
        [''alex'' \<mapsto> (Female, double (double (2 / 3) * double (7 / 10)), 3)] None input_alex))
      = length (data_rows input_alex)"
    and all: "\<forall>i < length (data_rows input_alex).
        \<exists>chosen_gender chosen_conf source.
          tl (annotate Map.empty
                [''alex'' \<mapsto> (Female, double (double (2 / 3) * double (7 / 10)), 3)] None
                input_alex) ! i
            = data_rows input_alex ! i @ [gender_str chosen_gender, fmt3 chosen_conf, source]"
    by blast+
  from all h have "\<exists>chosen_gender chosen_conf source.
          tl (annotate Map.empty
                [''alex'' \<mapsto> (Female, double (double (2 / 3) * double (7 / 10)), 3)] None
                input_alex) ! 0
            = data_rows input_alex ! 0 @ [gender_str chosen_gender, fmt3 chosen_conf, source]"
    by blast
  then show ?thesis using h d len l by simp
qed

text \<open>
  The same for the whole output file: every row after the header row comes from a
  non-empty row of the input file, with three columns appended.
\<close>

lemma annotate_rows_appended:
  assumes "out \<in> set (tl (annotate mapping_country mapping gg rows))"
  shows "\<exists>row \<in> set (tl rows). \<exists>g c s. row \<noteq> [] \<and> out = row @ [g, c, s]"
proof (cases rows)
  case Nil
  then show ?thesis using assms by (simp add: annotate_def)
next
  case (Cons header rest)
  from assms obtain row where row: "row \<in> set rest"
    and out: "process_row mapping_country mapping gg row = Some out"
    by (auto simp: annotate_def Cons List.map_filter_def)
  from out have "row \<noteq> []" "\<exists>g c s. out = row @ [g, c, s]"
    by (auto simp: process_row_def Let_def split: if_splits prod.splits)
  then show ?thesis using row by (auto simp: Cons)
qed

subsection \<open>The order of the cascade\<close>

lemma aggregate_reference_us:
  "aggregate reference_us =
     ([(''alex'', [(Unknown, 7), (Male, 63)])],
      [(''US'', [(''alex'', [(Unknown, 7), (Male, 3)])])])"
  unfolding reference_us_def by code_simp

lemma entry_of_us:
  "entry_of [(Unknown, 7), (Male, 63)] = Some (Male, double (9 / 10), 70)"
  "entry_of [(Unknown, 7), (Male, 3)] = Some (Unknown, double (7 / 10), 10)"
  by code_simp+

lemma mapping_us:
  "build_mapping [(''alex'', [(Unknown, 7), (Male, 63)])] = [''alex'' \<mapsto> (Male, double (9 / 10), 70)]"
  by (simp add: build_mapping_def entry_of_us del: One_nat_def)

lemma mapping_country_us:
  "build_mapping_country [(''US'', [(''alex'', [(Unknown, 7), (Male, 3)])])]
     = [(''US'', ''alex'') \<mapsto> (Unknown, double (7 / 10), 10)]"
  by (simp add: build_mapping_country_def entry_of_us del: One_nat_def)

lemma decide_us:
  "decide [(''US'', ''alex'') \<mapsto> (Unknown, double (7 / 10), 10)] [''alex'' \<mapsto> (Male, double (9 / 10), 70)] gg
     ''Alex Smith'' ''US'' = (Male, double (9 / 10), ''mapped'')"
  by (simp add: decide_def first_name_alex step_mapping_def step_gg_def step_final_def
      undecided_def double_compare GG_AVAILABLE_def)

text \<open>
  A country-scoped entry at or above the threshold whose label is not \<open>Unknown\<close> is the
  decision, whatever the global mapping and the classifier say.
\<close>

lemma decide_country_mapped:
  assumes "get_first_name name \<noteq> []"
    and "mapping_country (country, get_first_name name) = Some (g, conf, tot)"
    and "conf \<ge> CONF_THRESHOLD" and "g \<noteq> Unknown"
  shows "decide mapping_country mapping gg name country = (g, conf, ''country-mapped'')"
  using assms by (simp add: decide_def step_mapping_def step_gg_def step_final_def)

text \<open>
  Claim C2, as the script computes it: for every record whose name token has a
  country-scoped entry with confidence 0.70 and a label other than \<open>Unknown\<close>, and a
  global entry with confidence 0.90, the decision is the country-scoped entry with the
  source \<open>country-mapped\<close>, not the global entry of higher confidence.
\<close>

theorem country_mapped_precedes:
  assumes "get_first_name name \<noteq> []"
    and "mapping_country (country, get_first_name name) = Some (g, double (7 / 10), tot)"
    and "mapping (get_first_name name) = Some (g', double (9 / 10), tot')"
    and "g \<noteq> Unknown"
  shows "decide mapping_country mapping gg name country = (g, double (7 / 10), ''country-mapped'')"
  using assms
  by (simp add: decide_def step_mapping_def step_gg_def step_final_def double_compare)

theorem country_mapped_precedes_witness:
  "get_first_name ''Alex Smith'' \<noteq> []
   \<and> [(''US'', ''alex'') \<mapsto> (Female, double (7 / 10) :: rat, 10 :: nat)]
         (''US'', get_first_name ''Alex Smith'')
       = Some (Female, double (7 / 10), 10)
   \<and> [''alex'' \<mapsto> (Male, double (9 / 10) :: rat, 70 :: nat)] (get_first_name ''Alex Smith'')
       = Some (Male, double (9 / 10), 70)
   \<and> Female \<noteq> Unknown
   \<and> decide [(''US'', ''alex'') \<mapsto> (Female, double (7 / 10), 10)] [''alex'' \<mapsto> (Male, double (9 / 10), 70)]
         None ''Alex Smith'' ''US''
       = (Female, double (7 / 10), ''country-mapped'')"
proof -
  have h1: "get_first_name ''Alex Smith'' \<noteq> []"
    by (simp add: first_name_alex)
  have h2: "[(''US'', ''alex'') \<mapsto> (Female, double (7 / 10) :: rat, 10 :: nat)]
      (''US'', get_first_name ''Alex Smith'') = Some (Female, double (7 / 10), 10)"
    by (simp add: first_name_alex)
  have h3: "[''alex'' \<mapsto> (Male, double (9 / 10) :: rat, 70 :: nat)] (get_first_name ''Alex Smith'')
      = Some (Male, double (9 / 10), 70)"
    by (simp add: first_name_alex)
  have h4: "Female \<noteq> Unknown" by simp
  from country_mapped_precedes [where name = "''Alex Smith''" and country = "''US''"
      and mapping_country = "[(''US'', ''alex'') \<mapsto> (Female, double (7 / 10), 10)]"
      and mapping = "[''alex'' \<mapsto> (Male, double (9 / 10), 70)]" and gg = None
      and g = Female and tot = 10 and g' = Male and tot' = 70, OF h1 h2 h3 h4]
  show ?thesis
    using h1 h2 h3 h4 by simp
qed

text \<open>
  Claim C2 as stated fails for a country-scoped entry whose label is \<open>Unknown\<close>: with
  the reference rows \<open>reference_us\<close> the country-scoped entry is (Unknown, 0.70, 10), the
  global entry is (Male, 0.90, 70), and the decision for \<open>("Alex Smith", "US")\<close> is the
  global entry with the source \<open>mapped\<close>.
\<close>

theorem country_mapped_precedes_counterexample:
  "build_mapping_country (snd (aggregate reference_us)) (''US'', ''alex'')
     = Some (Unknown, double (7 / 10), 10)
   \<and> build_mapping (fst (aggregate reference_us)) ''alex'' = Some (Male, double (9 / 10), 70)
   \<and> decide (build_mapping_country (snd (aggregate reference_us)))
         (build_mapping (fst (aggregate reference_us))) None ''Alex Smith'' ''US''
       = (Male, double (9 / 10), ''mapped'')
   \<and> decide (build_mapping_country (snd (aggregate reference_us)))
         (build_mapping (fst (aggregate reference_us))) None ''Alex Smith'' ''US''
       \<noteq> (Unknown, double (7 / 10), ''country-mapped'')"
  by (simp add: aggregate_reference_us mapping_us mapping_country_us decide_us
      del: One_nat_def)

subsection \<open>The classifier block\<close>

text \<open>
  With the classifier available, no decision yet and a global entry that is absent or
  below the threshold, the block compares the answer of the classifier with the
  confidence of the global entry (0 when there is none).
\<close>

lemma step_gg_global_candidate:
  assumes "fname \<noteq> []" and "gg \<noteq> None"
    and "gg_guess gg fname = (gg_g, gg_conf)"
    and "mapping fname = Some (g, conf, tot)" and "conf < CONF_THRESHOLD"
  shows "step_gg mapping gg fname undecided =
           (if gg_conf \<ge> double (85 / 100) \<or> gg_conf > conf then (gg_g, gg_conf, ''gender-guesser'')
            else if conf > gg_conf then (g, conf, ''mapped'')
            else undecided)"
  using assms by (simp add: step_gg_def undecided_def GG_AVAILABLE_def)

lemma step_gg_no_candidate:
  assumes "fname \<noteq> []" and "gg \<noteq> None"
    and "gg_guess gg fname = (gg_g, gg_conf)"
    and "mapping fname = None"
  shows "step_gg mapping gg fname undecided =
           (if gg_conf \<ge> double (85 / 100) \<or> gg_conf > 0 then (gg_g, gg_conf, ''gender-guesser'')
            else undecided)"
  using assms by (simp add: step_gg_def undecided_def GG_AVAILABLE_def)

lemma decide_xq:
  "decide [(''US'', ''xq'') \<mapsto> (Female, double (3 / 5), 5)] [''xq'' \<mapsto> (Male, double (4 / 7), 7)]
     (Some detector_unknown) ''Xq Smith'' ''US'' = (Male, double (4 / 7), ''mapped'')"
  by (simp add: decide_def first_name_xq step_mapping_def step_gg_def step_final_def
      undecided_def double_compare GG_AVAILABLE_def gg_guess_def detector_unknown_def)

text \<open>
  Claim C3 at the reference rows \<open>reference_xq\<close> and the input row
  \<open>("Xq Smith", "US")\<close>, with a classifier that does not know the name. The
  country-scoped entry (Female, 0.6, 5) is below the threshold, so the first block
  leaves the row undecided and the classifier block is reached; the classifier answers
  (Unknown, 0). The script then compares with the global entry (Male, 4/7, 7) and
  emits it: the country-scoped candidate (Female, 0.6) is not the one that is
  compared or emitted.
\<close>

theorem country_candidate_dropped:
  "build_mapping_country (snd (aggregate reference_xq)) (''US'', ''xq'')
     = Some (Female, double (3 / 5), 5)
   \<and> build_mapping (fst (aggregate reference_xq)) ''xq'' = Some (Male, double (4 / 7), 7)
   \<and> step_mapping (build_mapping_country (snd (aggregate reference_xq)))
         (build_mapping (fst (aggregate reference_xq))) ''US'' ''xq'' = undecided
   \<and> gg_guess (Some detector_unknown) ''xq'' = (Unknown, 0)
   \<and> decide (build_mapping_country (snd (aggregate reference_xq)))
         (build_mapping (fst (aggregate reference_xq))) (Some detector_unknown)
         ''Xq Smith'' ''US''
       = (Male, double (4 / 7), ''mapped'')"
  by (simp add: aggregate_reference_xq mapping_xq mapping_country_xq decide_xq
      step_mapping_def double_compare gg_guess_def detector_unknown_def
      del: One_nat_def)

subsection \<open>Counters and the mapping\<close>

lemma map_of_dd_update:
  "map_of (dd_update k d f xs)
     = (map_of xs)(k \<mapsto> f (case map_of xs k of Some v \<Rightarrow> v | None \<Rightarrow> d))"
  by (induction xs) (auto simp: fun_eq_iff)

lemma keys_dd_update:
  "map fst (dd_update k d f xs)
     = (if k \<in> set (map fst xs) then map fst xs else map fst xs @ [k])"
proof (induction xs)
  case Nil
  then show ?case by simp
next
  case (Cons x xs)
  obtain k' v where x: "x = (k', v)" by (cases x)
  show ?case
  proof (cases "k' = k")
    case True
    then show ?thesis by (simp add: x)
  next
    case False
    then show ?thesis using Cons.IH by (simp add: x)
  qed
qed

lemma distinct_dd_update:
  "distinct (map fst (dd_update k d f xs)) = distinct (map fst xs)"
  by (simp add: keys_dd_update)

lemma set_most_common: "set (most_common ctr) = set ctr"
  by (simp add: most_common_def)

lemma length_most_common: "length (most_common ctr) = length ctr"
  by (simp add: most_common_def)

lemma most_common_head_max:
  assumes "most_common ctr = (g, n) # rest" and "(h, m) \<in> set ctr"
  shows "m \<le> n"
proof -
  have "sorted (map (\<lambda>(g, n). - int n) (most_common ctr))"
    by (simp add: most_common_def)
  moreover have "(h, m) \<in> set (most_common ctr)"
    using assms(2) by (simp add: set_most_common)
  ultimately show ?thesis
    using assms(1) by auto
qed

lemma most_common_head_mem:
  "most_common ctr = (g, n) # rest \<Longrightarrow> (g, n) \<in> set ctr"
  using set_most_common [of ctr] by auto

lemma member_le_total: "(g, n) \<in> set ctr \<Longrightarrow> n \<le> total_of ctr"
  unfolding total_of_def by (induction ctr) auto

lemma total_pos_most_common:
  assumes "total_of ctr > 0"
  shows "most_common ctr \<noteq> []"
proof -
  have "ctr \<noteq> []" using assms by (auto simp: total_of_def)
  then have "length (most_common ctr) \<noteq> 0" by (simp add: length_most_common)
  then show ?thesis by auto
qed

lemma entry_of_SomeD:
  assumes "entry_of ctr = Some (g, conf, tot)"
  shows "tot = total_of ctr \<and> tot > 0
    \<and> (\<exists>n. (g, n) \<in> set ctr \<and> (\<forall>(h, m) \<in> set ctr. m \<le> n)
          \<and> conf = (if tot < MIN_COUNT_FOR_CONFIDENCE
                         \<and> double (rat_of_nat n / rat_of_nat tot) < 1
                     then double (double (rat_of_nat n / rat_of_nat tot) * double (7 / 10))
                     else double (rat_of_nat n / rat_of_nat tot)))"
proof -
  from assms have pos: "total_of ctr > 0"
    by (auto simp: entry_of_def Let_def split: if_splits)
  then obtain g0 n0 rest where mc: "most_common ctr = (g0, n0) # rest"
    using total_pos_most_common [of ctr] by (cases "most_common ctr") auto
  have mem: "(g0, n0) \<in> set ctr" using mc by (rule most_common_head_mem)
  have mx: "\<forall>(h, m) \<in> set ctr. m \<le> n0"
    using most_common_head_max [OF mc] by auto
  from assms mc pos have "g = g0" "tot = total_of ctr"
    by (auto simp: entry_of_def Let_def split: if_splits)
  moreover from assms mc pos
  have "conf = (if total_of ctr < MIN_COUNT_FOR_CONFIDENCE
                    \<and> double (rat_of_nat n0 / rat_of_nat (total_of ctr)) < 1
                then double (double (rat_of_nat n0 / rat_of_nat (total_of ctr))
                               * double (7 / 10))
                else double (rat_of_nat n0 / rat_of_nat (total_of ctr)))"
    by (auto simp: entry_of_def Let_def split: if_splits)
  ultimately show ?thesis using pos mem mx by blast
qed

lemma entry_of_conf_range:
  assumes "entry_of ctr = Some (g, conf, tot)"
  shows "0 \<le> conf \<and> conf \<le> 1"
proof -
  from entry_of_SomeD [OF assms] obtain n where
    tot: "tot = total_of ctr" "tot > 0" and mem: "(g, n) \<in> set ctr"
    and conf: "conf = (if tot < MIN_COUNT_FOR_CONFIDENCE
                         \<and> double (rat_of_nat n / rat_of_nat tot) < 1
                     then double (double (rat_of_nat n / rat_of_nat tot) * double (7 / 10))
                     else double (rat_of_nat n / rat_of_nat tot))"
    by blast
  define share where "share = double (rat_of_nat n / rat_of_nat tot)"
  define factor where "factor = double (7 / 10)"
  have "n \<le> tot" using mem tot member_le_total by simp
  then have "0 \<le> rat_of_nat n / rat_of_nat tot" "rat_of_nat n / rat_of_nat tot \<le> 1"
    using tot(2) by simp_all
  then have share: "0 \<le> share" "share \<le> 1"
    unfolding share_def by (simp_all add: double_nonneg double_le_one)
  have factor: "0 \<le> factor" "factor \<le> 1"
    unfolding factor_def by (simp_all add: double_nonneg double_le_one)
  have "0 \<le> share * factor" using share factor by simp
  moreover have "share * factor \<le> 1"
    using share factor mult_mono [of share 1 factor 1] by simp
  ultimately have "0 \<le> double (share * factor)" "double (share * factor) \<le> 1"
    by (simp_all add: double_nonneg double_le_one)
  with share conf show ?thesis by (auto simp: share_def factor_def)
qed

lemma entry_of_Some_iff: "(\<exists>e. entry_of ctr = Some e) = (total_of ctr > 0)"
  using total_pos_most_common [of ctr]
  by (cases "most_common ctr") (auto simp: entry_of_def Let_def)

lemma build_mapping_fold_Some:
  assumes "fold (\<lambda>(fname, ctr) mapping.
             case entry_of ctr of None \<Rightarrow> mapping | Some e \<Rightarrow> mapping(fname \<mapsto> e))
          counts m0 fname = Some e"
  shows "m0 fname = Some e \<or> (\<exists>ctr. (fname, ctr) \<in> set counts \<and> entry_of ctr = Some e)"
  using assms
proof (induction counts arbitrary: m0)
  case Nil
  then show ?case by simp
next
  case (Cons item counts)
  obtain f c where item: "item = (f, c)" by (cases item)
  from Cons.prems Cons.IH [of "case entry_of c of None \<Rightarrow> m0 | Some e \<Rightarrow> m0(f \<mapsto> e)"]
  show ?case
    by (auto simp: item split: option.splits if_splits)
qed

lemma build_mapping_Some:
  "build_mapping counts fname = Some e
     \<Longrightarrow> \<exists>ctr. (fname, ctr) \<in> set counts \<and> entry_of ctr = Some e"
  unfolding build_mapping_def using build_mapping_fold_Some [of counts Map.empty fname e]
  by simp

lemma build_inner_fold_Some:
  assumes "fold (\<lambda>(fname, ctr) mc.
                     case entry_of ctr of None \<Rightarrow> mc | Some e \<Rightarrow> mc((country, fname) \<mapsto> e))
                  d m0 (co, fname) = Some e"
  shows "m0 (co, fname) = Some e
    \<or> (co = country \<and> (\<exists>ctr. (fname, ctr) \<in> set d \<and> entry_of ctr = Some e))"
  using assms
proof (induction d arbitrary: m0)
  case Nil
  then show ?case by simp
next
  case (Cons item d)
  obtain f c where item: "item = (f, c)" by (cases item)
  from Cons.prems
    Cons.IH [of "case entry_of c of None \<Rightarrow> m0 | Some e \<Rightarrow> m0((country, f) \<mapsto> e)"]
  show ?case
    by (auto simp: item split: option.splits if_splits)
qed

lemma build_mapping_country_fold_Some:
  assumes "fold (\<lambda>(country, d) mapping_country.
             fold (\<lambda>(fname, ctr) mc.
                     case entry_of ctr of None \<Rightarrow> mc | Some e \<Rightarrow> mc((country, fname) \<mapsto> e))
                  d mapping_country)
          cc m0 (co, fname) = Some e"
  shows "m0 (co, fname) = Some e
    \<or> (\<exists>d ctr. (co, d) \<in> set cc \<and> (fname, ctr) \<in> set d \<and> entry_of ctr = Some e)"
  using assms
proof (induction cc arbitrary: m0)
  case Nil
  then show ?case by simp
next
  case (Cons item cc)
  obtain country d where item: "item = (country, d)" by (cases item)
  let ?m1 = "fold (\<lambda>(fname, ctr) mc.
                     case entry_of ctr of None \<Rightarrow> mc | Some e \<Rightarrow> mc((country, fname) \<mapsto> e))
                  d m0"
  from Cons.prems have "fold (\<lambda>(country, d) mapping_country.
             fold (\<lambda>(fname, ctr) mc.
                     case entry_of ctr of None \<Rightarrow> mc | Some e \<Rightarrow> mc((country, fname) \<mapsto> e))
                  d mapping_country) cc ?m1 (co, fname) = Some e"
    by (simp add: item)
  from Cons.IH [OF this] build_inner_fold_Some [of country d m0 co fname e]
  show ?case by (auto simp: item)
qed

lemma build_mapping_country_Some:
  "build_mapping_country cc (country, fname) = Some e
     \<Longrightarrow> \<exists>d ctr. (country, d) \<in> set cc \<and> (fname, ctr) \<in> set d \<and> entry_of ctr = Some e"
  unfolding build_mapping_country_def
  using build_mapping_country_fold_Some [of cc Map.empty country fname e]
  by simp

text \<open>
  Claim C8: for every reference file, every entry of the global mapping and every entry
  of the country-scoped mapping has a confidence between 0 and 1: the count of the top
  label is at most the total, and the factor 0.7 keeps the share in that range.
\<close>

theorem confidence_range:
  "(build_mapping (fst (aggregate rows)) fname = Some (g, conf, tot)
      \<longrightarrow> 0 \<le> conf \<and> conf \<le> 1)
   \<and> (build_mapping_country (snd (aggregate rows)) (country, fname) = Some (g', conf', tot')
      \<longrightarrow> 0 \<le> conf' \<and> conf' \<le> 1)"
  using build_mapping_Some [of "fst (aggregate rows)" fname "(g, conf, tot)"]
    build_mapping_country_Some [of "snd (aggregate rows)" country fname "(g', conf', tot')"]
    entry_of_conf_range
  by blast

theorem confidence_range_witness:
  "build_mapping (fst (aggregate reference_xq)) ''xq'' = Some (Male, double (4 / 7), 7)
   \<and> build_mapping_country (snd (aggregate reference_xq)) (''US'', ''xq'')
       = Some (Female, double (3 / 5), 5)
   \<and> (0 :: rat) \<le> double (4 / 7) \<and> (double (4 / 7) :: rat) \<le> 1 \<and> (0 :: rat) \<le> double (3 / 5) \<and> (double (3 / 5) :: rat) \<le> 1"
proof -
  have h1: "build_mapping (fst (aggregate reference_xq)) ''xq'' = Some (Male, double (4 / 7), 7)"
    by (simp add: aggregate_reference_xq mapping_xq del: One_nat_def)
  have h2: "build_mapping_country (snd (aggregate reference_xq)) (''US'', ''xq'')
      = Some (Female, double (3 / 5), 5)"
    by (simp add: aggregate_reference_xq mapping_country_xq del: One_nat_def)
  from confidence_range [of reference_xq "''xq''" Male "double (4 / 7)" 7 "''US''" Female "double (3 / 5)" 5]
    h1 h2
  show ?thesis by blast
qed

subsection \<open>What the aggregation maintains\<close>

lemma gender_cases: "g = Male \<or> g = Female \<or> g = Unknown"
  by (cases g) auto

lemma cnt_Cons: "cnt ((h, n) # ctr) g = (if g = h then n else cnt ctr g)"
  by (simp add: cnt_def)

lemma cnt_absent: "g \<notin> set (map fst ctr) \<Longrightarrow> cnt ctr g = 0"
  by (simp add: cnt_def map_of_eq_None_iff [THEN iffD2])

lemma total_of_cnt:
  "distinct (map fst ctr) \<Longrightarrow> total_of ctr = cnt ctr Male + cnt ctr Female + cnt ctr Unknown"
proof (induction ctr)
  case Nil
  then show ?case by (simp add: total_of_def cnt_def)
next
  case (Cons x ctr)
  obtain h n where x: "x = (h, n)" by (cases x)
  from Cons.prems have abs: "cnt ctr h = 0" and d: "distinct (map fst ctr)"
    by (auto simp: x intro: cnt_absent)
  have tot: "total_of ((h, n) # ctr) = n + total_of ctr"
    by (simp add: total_of_def)
  show ?case
    unfolding x using Cons.IH [OF d] abs gender_cases [of h]
    by (auto simp: tot cnt_Cons)
qed

lemma cnt_counter_inc:
  "cnt (counter_inc g ctr) h = cnt ctr h + (if h = g then 1 else 0)"
  by (simp add: cnt_def counter_inc_def map_of_dd_update split: option.splits)

lemma distinct_counter_inc:
  "distinct (map fst (counter_inc g ctr)) = distinct (map fst ctr)"
  by (simp add: counter_inc_def distinct_dd_update)

lemma map_of_counts_inc:
  "map_of (counts_inc fname g counts) =
     (map_of counts)(fname \<mapsto> counter_inc g (case map_of counts fname of Some c \<Rightarrow> c | None \<Rightarrow> []))"
  by (simp add: counts_inc_def map_of_dd_update)

lemma distinct_counts_inc:
  "distinct (map fst (counts_inc fname g counts)) = distinct (map fst counts)"
  by (simp add: counts_inc_def distinct_dd_update)

lemma map_of_country_inc:
  "map_of (country_inc country fname g cc) =
     (map_of cc)(country \<mapsto> counts_inc fname g (case map_of cc country of Some d \<Rightarrow> d | None \<Rightarrow> []))"
  by (simp add: country_inc_def map_of_dd_update)

lemma distinct_country_inc:
  "distinct (map fst (country_inc country fname g cc)) = distinct (map fst cc)"
  by (simp add: country_inc_def distinct_dd_update)

lemma agg_inv_global:
  assumes "agg_inv (cg, cc)"
  shows "agg_inv (counts_inc fname g cg, cc)"
  unfolding agg_inv_def
proof (simp only: prod.case, intro conjI allI impI)
  show "distinct (map fst (counts_inc fname g cg))"
    using assms by (simp add: agg_inv_def distinct_counts_inc)
next
  fix f c assume "map_of (counts_inc fname g cg) f = Some c"
  then show "distinct (map fst c)"
    using assms
    by (auto simp: agg_inv_def map_of_counts_inc distinct_counter_inc
        split: if_splits option.splits)
next
  show "distinct (map fst cc)" using assms by (simp add: agg_inv_def)
next
  fix co d assume "map_of cc co = Some d"
  then show "distinct (map fst d)" using assms by (auto simp: agg_inv_def)
next
  fix co d f c' assume a: "map_of cc co = Some d" "map_of d f = Some c'"
  then show "distinct (map fst c')" using assms unfolding agg_inv_def by blast
next
  fix co d f c' assume a: "map_of cc co = Some d" "map_of d f = Some c'"
  from assms a obtain c where c: "map_of cg f = Some c" "\<forall>h. cnt c' h \<le> cnt c h"
    unfolding agg_inv_def by blast
  show "\<exists>c. map_of (counts_inc fname g cg) f = Some c \<and> (\<forall>g. cnt c' g \<le> cnt c g)"
  proof (cases "f = fname")
    case True
    have "\<forall>h. cnt c' h \<le> cnt (counter_inc g c) h"
      using c(2) by (simp add: cnt_counter_inc le_SucI)
    then show ?thesis using c(1) True by (simp add: map_of_counts_inc)
  next
    case False
    then show ?thesis using c by (simp add: map_of_counts_inc)
  qed
qed

lemma agg_inv_both:
  assumes "agg_inv (cg, cc)"
  shows "agg_inv (counts_inc fname g cg, country_inc country fname g cc)"
proof -
  have inv1: "agg_inv (counts_inc fname g cg, cc)"
    using assms by (rule agg_inv_global)
  let ?cg = "counts_inc fname g cg"
  let ?d0 = "case map_of cc country of Some d \<Rightarrow> d | None \<Rightarrow> []"
  have d0: "distinct (map fst ?d0)"
    using assms by (auto simp: agg_inv_def split: option.splits)
  show ?thesis
    unfolding agg_inv_def
  proof (simp only: prod.case, intro conjI allI impI)
    show "distinct (map fst ?cg)" using inv1 by (simp add: agg_inv_def)
  next
    fix f c assume "map_of ?cg f = Some c"
    then show "distinct (map fst c)" using inv1 unfolding agg_inv_def by blast
  next
    show "distinct (map fst (country_inc country fname g cc))"
      using assms by (simp add: agg_inv_def distinct_country_inc)
  next
    fix co d assume "map_of (country_inc country fname g cc) co = Some d"
    then show "distinct (map fst d)"
      using assms d0
      by (auto simp: agg_inv_def map_of_country_inc distinct_counts_inc split: if_splits)
  next
    fix co d f c'
    assume a: "map_of (country_inc country fname g cc) co = Some d" "map_of d f = Some c'"
    show "distinct (map fst c')"
    proof (cases "co = country \<and> f = fname")
      case True
      with a have c': "c' = counter_inc g (case map_of ?d0 fname of Some c \<Rightarrow> c | None \<Rightarrow> [])"
        by (auto simp: map_of_country_inc map_of_counts_inc)
      have "distinct (map fst (case map_of ?d0 fname of Some c \<Rightarrow> c | None \<Rightarrow> []))"
        using assms unfolding agg_inv_def by (auto split: option.splits)
      then show ?thesis by (simp add: c' distinct_counter_inc)
    next
      case False
      with a have "\<exists>d0. map_of cc co = Some d0 \<and> map_of d0 f = Some c'"
        by (auto simp: map_of_country_inc map_of_counts_inc split: if_splits option.splits)
      then show ?thesis using assms unfolding agg_inv_def by blast
    qed
  next
    fix co d f c'
    assume a: "map_of (country_inc country fname g cc) co = Some d" "map_of d f = Some c'"
    show "\<exists>c. map_of ?cg f = Some c \<and> (\<forall>h. cnt c' h \<le> cnt c h)"
    proof (cases "co = country \<and> f = fname")
      case True
      let ?c0' = "case map_of ?d0 fname of Some c \<Rightarrow> c | None \<Rightarrow> []"
      let ?c0 = "case map_of cg fname of Some c \<Rightarrow> c | None \<Rightarrow> []"
      from True a have c': "c' = counter_inc g ?c0'"
        by (auto simp: map_of_country_inc map_of_counts_inc)
      have le: "\<forall>h. cnt ?c0' h \<le> cnt ?c0 h"
      proof (cases "map_of ?d0 fname")
        case None
        then show ?thesis by (simp add: cnt_def)
      next
        case (Some c0')
        then obtain d1 where "map_of cc country = Some d1" "map_of d1 fname = Some c0'"
          by (cases "map_of cc country") auto
        with assms obtain c where "map_of cg fname = Some c" "\<forall>h. cnt c0' h \<le> cnt c h"
          unfolding agg_inv_def by blast
        then show ?thesis using Some by simp
      qed
      have "map_of ?cg f = Some (counter_inc g ?c0)"
        using True by (simp add: map_of_counts_inc)
      moreover have "\<forall>h. cnt c' h \<le> cnt (counter_inc g ?c0) h"
        using le by (simp add: c' cnt_counter_inc)
      ultimately show ?thesis by blast
    next
      case False
      with a have "\<exists>d0. map_of cc co = Some d0 \<and> map_of d0 f = Some c'"
        by (auto simp: map_of_country_inc map_of_counts_inc split: if_splits option.splits)
      then obtain d0 where "map_of cc co = Some d0" "map_of d0 f = Some c'" by blast
      with inv1 show ?thesis unfolding agg_inv_def by blast
    qed
  qed
qed

lemma agg_inv_row: "agg_inv st \<Longrightarrow> agg_inv (agg_row cols row st)"
  by (cases st) (auto simp: agg_row_def Let_def agg_inv_global agg_inv_both split: option.splits)

lemma agg_inv_fold: "agg_inv st \<Longrightarrow> agg_inv (fold (agg_row cols) rows st)"
  by (induction rows arbitrary: st) (auto simp: agg_inv_row)

lemma agg_inv_empty: "agg_inv ([], [])"
  by (simp add: agg_inv_def)

lemma agg_inv_aggregate: "agg_inv (aggregate rows)"
proof (cases rows)
  case Nil
  then show ?thesis by (simp add: aggregate_def agg_inv_empty)
next
  case (Cons first_row rest)
  have "agg_inv (counts_inc fname g [], [])" for fname g
    using agg_inv_global [OF agg_inv_empty] .
  then show ?thesis
    by (auto simp: aggregate_def Cons Let_def agg_inv_fold agg_inv_empty split: option.splits)
qed

lemma build_mapping_fold_distinct:
  assumes "distinct (map fst counts)"
  shows "fold (\<lambda>(fname, ctr) mapping.
             case entry_of ctr of None \<Rightarrow> mapping | Some e \<Rightarrow> mapping(fname \<mapsto> e))
          counts m0 fname
         = (case map_of counts fname of
              None \<Rightarrow> m0 fname
            | Some ctr \<Rightarrow> (case entry_of ctr of None \<Rightarrow> m0 fname | Some e \<Rightarrow> Some e))"
  using assms
proof (induction counts arbitrary: m0)
  case Nil
  then show ?case by simp
next
  case (Cons item counts)
  obtain f c where item: "item = (f, c)" by (cases item)
  from Cons.prems have d: "distinct (map fst counts)" and nf: "f \<notin> set (map fst counts)"
    by (auto simp: item)
  have none: "f = fname \<Longrightarrow> map_of counts fname = None"
    using nf by (simp add: map_of_eq_None_iff)
  show ?case
    using Cons.IH [OF d, of "case entry_of c of None \<Rightarrow> m0 | Some e \<Rightarrow> m0(f \<mapsto> e)"] none
    by (auto simp: item split: option.splits)
qed

lemma build_mapping_distinct:
  "distinct (map fst counts) \<Longrightarrow>
     build_mapping counts fname
       = (case map_of counts fname of None \<Rightarrow> None | Some ctr \<Rightarrow> entry_of ctr)"
  unfolding build_mapping_def
  by (simp add: build_mapping_fold_distinct split: option.splits)

lemma total_of_mono:
  assumes "distinct (map fst c')" and "distinct (map fst c)" and "\<forall>g. cnt c' g \<le> cnt c g"
  shows "total_of c' \<le> total_of c"
  using assms by (simp add: total_of_cnt add_mono)

text \<open>
  Claim C10: for every reference file, every key (country, name) of the country-scoped
  mapping has its name in the global mapping, and the total of the country-scoped entry
  is at most the total of the global entry: every row counted under a country is also
  counted into the global table.
\<close>

theorem scoped_implies_global:
  assumes "build_mapping_country (snd (aggregate rows)) (country, fname) = Some (g', conf', tot')"
  shows "\<exists>g conf tot. build_mapping (fst (aggregate rows)) fname = Some (g, conf, tot)
           \<and> tot' \<le> tot"
proof -
  obtain cg cc where st: "aggregate rows = (cg, cc)" by (cases "aggregate rows")
  have inv: "agg_inv (cg, cc)" using agg_inv_aggregate [of rows] by (simp add: st)
  from assms obtain d c' where d: "(country, d) \<in> set cc" and c': "(fname, c') \<in> set d"
    and e': "entry_of c' = Some (g', conf', tot')"
    using build_mapping_country_Some [of cc country fname "(g', conf', tot')"]
    by (auto simp: st)
  have dcc: "distinct (map fst cc)" and dcg: "distinct (map fst cg)"
    using inv by (simp_all add: agg_inv_def)
  have md: "map_of cc country = Some d" using d dcc by simp
  then have "distinct (map fst d)" using inv unfolding agg_inv_def by blast
  then have mc': "map_of d fname = Some c'" using c' by simp
  from inv md mc' obtain c where dc': "distinct (map fst c')"
    and mc: "map_of cg fname = Some c" and le: "\<forall>g. cnt c' g \<le> cnt c g"
    unfolding agg_inv_def by blast
  have dc: "distinct (map fst c)" using inv mc unfolding agg_inv_def by blast
  have tle: "total_of c' \<le> total_of c" using dc' dc le by (rule total_of_mono)
  from entry_of_SomeD [OF e'] have t': "tot' = total_of c'" "tot' > 0" by simp_all
  then have "total_of c > 0" using tle by simp
  then obtain g conf tot where e: "entry_of c = Some (g, conf, tot)"
    using entry_of_Some_iff [of c] by auto
  from entry_of_SomeD [OF e] have t: "tot = total_of c" by simp
  have "build_mapping (fst (aggregate rows)) fname = Some (g, conf, tot)"
    using dcg mc e by (simp add: st build_mapping_distinct)
  then show ?thesis using t t' tle by auto
qed

theorem scoped_implies_global_witness:
  "build_mapping_country (snd (aggregate reference_xq)) (''US'', ''xq'')
     = Some (Female, double (3 / 5), 5)
   \<and> (\<exists>g conf tot. build_mapping (fst (aggregate reference_xq)) ''xq'' = Some (g, conf, tot)
         \<and> 5 \<le> tot)"
proof -
  have h: "build_mapping_country (snd (aggregate reference_xq)) (''US'', ''xq'')
      = Some (Female, double (3 / 5), 5)"
    by (simp add: aggregate_reference_xq mapping_country_xq del: One_nat_def)
  from scoped_implies_global [OF h] h show ?thesis by blast
qed

subsection \<open>The top label and the order of the rows\<close>

lemma keys_counter_inc:
  "map fst (counter_inc g ctr)
     = (if g \<in> set (map fst ctr) then map fst ctr else map fst ctr @ [g])"
  by (simp add: counter_inc_def keys_dd_update)

lemma counter_of_snoc: "counter_of (ls @ [x]) = counter_inc x (counter_of ls)"
  by (simp add: counter_of_def)

lemma distinct_counter_of: "distinct (map fst (counter_of ls))"
  by (induction ls rule: rev_induct)
    (simp_all add: counter_of_snoc distinct_counter_inc counter_of_def)

lemma keys_counter_of: "set (map fst (counter_of ls)) = set ls"
proof (induction ls rule: rev_induct)
  case Nil
  then show ?case by (simp add: counter_of_def)
next
  case (snoc x ls)
  then show ?case by (auto simp: counter_of_snoc keys_counter_inc)
qed

lemma cnt_counter_of: "cnt (counter_of ls) h = count_list ls h"
proof (induction ls rule: rev_induct)
  case Nil
  then show ?case by (simp add: counter_of_def cnt_def)
next
  case (snoc x ls)
  then show ?case by (simp add: counter_of_snoc cnt_counter_inc)
qed

lemma total_of_counter_of: "total_of (counter_of ls) = length ls"
proof (induction ls rule: rev_induct)
  case Nil
  then show ?case by (simp add: counter_of_def total_of_def)
next
  case (snoc x ls)
  have "total_of (counter_inc x (counter_of ls)) = Suc (total_of (counter_of ls))"
    using gender_cases [of x]
    by (auto simp: total_of_cnt distinct_counter_inc distinct_counter_of cnt_counter_inc)
  then show ?case using snoc by (simp add: counter_of_snoc)
qed

lemma counter_of_item:
  assumes "(h, m) \<in> set (counter_of ls)"
  shows "m = count_list ls h"
proof -
  have "map_of (counter_of ls) h = Some m"
    using assms distinct_counter_of by simp
  then have "cnt (counter_of ls) h = m" by (simp add: cnt_def)
  then show ?thesis by (simp add: cnt_counter_of)
qed

text \<open>Keys ahead of a label in the counter are the labels seen before it.\<close>

lemma keys_before_counter_of:
  "set (takeWhile (\<lambda>k. k \<noteq> g) (map fst (counter_of ls))) = set (takeWhile (\<lambda>x. x \<noteq> g) ls)"
proof (induction ls rule: rev_induct)
  case Nil
  then show ?case by (simp add: counter_of_def)
next
  case (snoc x ls)
  let ?keys = "map fst (counter_of ls)"
  have keys: "set ?keys = set ls" by (rule keys_counter_of)
  show ?case
  proof (cases "g \<in> set ls")
    case True
    then have "g \<in> set ?keys" using keys by simp
    then have "takeWhile (\<lambda>k. k \<noteq> g) (map fst (counter_of (ls @ [x])))
        = takeWhile (\<lambda>k. k \<noteq> g) ?keys"
      by (auto simp: counter_of_snoc keys_counter_inc)
    moreover have "takeWhile (\<lambda>k. k \<noteq> g) (ls @ [x]) = takeWhile (\<lambda>k. k \<noteq> g) ls"
      using True by auto
    ultimately show ?thesis using snoc by simp
  next
    case False
    define ks where "ks = map fst (counter_of ls)"
    have ks: "set ks = set ls" unfolding ks_def by (rule keys_counter_of)
    have allk: "\<forall>k \<in> set ks. k \<noteq> g" and alll: "\<forall>k \<in> set ls. k \<noteq> g"
      using False ks by auto
    have keys': "map fst (counter_of (ls @ [x])) = (if x \<in> set ks then ks else ks @ [x])"
      by (simp add: counter_of_snoc keys_counter_inc ks_def)
    show ?thesis
    proof (cases "x = g")
      case True
      then have "x \<notin> set ks" using allk by auto
      then have "takeWhile (\<lambda>k. k \<noteq> g) (map fst (counter_of (ls @ [x]))) = ks"
        unfolding keys' using allk True by simp
      moreover have "takeWhile (\<lambda>k. k \<noteq> g) (ls @ [x]) = ls"
        using alll True by simp
      ultimately show ?thesis using ks by simp
    next
      case xg: False
      have "takeWhile (\<lambda>k. k \<noteq> g) (map fst (counter_of (ls @ [x])))
          = (if x \<in> set ks then ks else ks @ [x])"
        unfolding keys' using allk xg by simp
      moreover have "takeWhile (\<lambda>k. k \<noteq> g) (ls @ [x]) = ls @ [x]"
        using alll xg by simp
      ultimately show ?thesis using ks by auto
    qed
  qed
qed

lemma filter_head_first:
  "filter P xs = y # ys \<Longrightarrow> z \<in> set (takeWhile (\<lambda>z. z \<noteq> y) xs) \<Longrightarrow> \<not> P z"
proof (induction xs)
  case Nil
  then show ?case by simp
next
  case (Cons x xs)
  then show ?case by (cases "P x") (auto split: if_splits)
qed

lemma most_common_head_first:
  assumes "most_common ctr = (g, n) # rest"
    and "(h, m) \<in> set (takeWhile (\<lambda>item. item \<noteq> (g, n)) ctr)"
  shows "m < n"
proof -
  let ?f = "\<lambda>(g, n). - int n"
  have "filter (\<lambda>y. ?f y = - int n) (sort_key ?f ctr) = filter (\<lambda>y. ?f y = - int n) ctr"
    by (rule sort_key_stable)
  then have "filter (\<lambda>y. ?f y = - int n) ctr = (g, n) # filter (\<lambda>y. ?f y = - int n) rest"
    using assms(1) by (simp add: most_common_def)
  from filter_head_first [OF this assms(2)] have "m \<noteq> n" by simp
  moreover have "(h, m) \<in> set ctr" using assms(2) by (auto dest: set_takeWhileD)
  then have "m \<le> n" using most_common_head_max [OF assms(1)] by simp
  ultimately show ?thesis by simp
qed

lemma top_label_first_counted:
  assumes "ls \<noteq> []"
  shows "\<exists>g conf. entry_of (counter_of ls) = Some (g, conf, length ls)
           \<and> g \<in> set ls
           \<and> (\<forall>h. count_list ls h \<le> count_list ls g)
           \<and> (\<forall>h. count_list ls h = count_list ls g
                  \<longrightarrow> h \<notin> set (takeWhile (\<lambda>x. x \<noteq> g) ls))"
proof -
  let ?c = "counter_of ls"
  have pos: "total_of ?c > 0" using assms by (simp add: total_of_counter_of)
  then obtain g n rest where mc: "most_common ?c = (g, n) # rest"
    using total_pos_most_common [of ?c] by (cases "most_common ?c") auto
  obtain e where e: "entry_of ?c = Some e" using pos entry_of_Some_iff [of ?c] by auto
  obtain g0 conf tot where e3: "e = (g0, conf, tot)" by (cases e)
  have "g0 = g" using e mc pos by (auto simp: e3 entry_of_def Let_def split: if_splits)
  moreover have "tot = length ls"
    using entry_of_SomeD [of ?c g0 conf tot] e by (simp add: e3 total_of_counter_of)
  ultimately have ent: "entry_of ?c = Some (g, conf, length ls)" using e e3 by simp
  have mem: "(g, n) \<in> set ?c" using mc by (rule most_common_head_mem)
  then have n: "n = count_list ls g" by (rule counter_of_item)
  have gin: "g \<in> set ls" using mem keys_counter_of [of ls] by force
  have mx: "count_list ls h \<le> count_list ls g" for h
  proof (cases "h \<in> set ls")
    case True
    then have "h \<in> set (map fst ?c)" using keys_counter_of [of ls] by simp
    then obtain m where hm: "(h, m) \<in> set ?c" by auto
    then have "m \<le> n" using most_common_head_max [OF mc] by simp
    then show ?thesis using counter_of_item [OF hm] n by simp
  next
    case False
    then show ?thesis by simp
  qed
  have first: "h \<notin> set (takeWhile (\<lambda>x. x \<noteq> g) ls)" if tie: "count_list ls h = count_list ls g" for h
  proof
    assume "h \<in> set (takeWhile (\<lambda>x. x \<noteq> g) ls)"
    then have "h \<in> set (takeWhile (\<lambda>k. k \<noteq> g) (map fst ?c))"
      by (simp add: keys_before_counter_of)
    then have "h \<in> fst ` set (takeWhile ((\<lambda>k. k \<noteq> g) \<circ> fst) ?c)"
      by (simp add: takeWhile_map)
    then obtain m where hm: "(h, m) \<in> set (takeWhile ((\<lambda>k. k \<noteq> g) \<circ> fst) ?c)"
      by auto
    have "takeWhile ((\<lambda>k. k \<noteq> g) \<circ> fst) ?c = takeWhile (\<lambda>item. item \<noteq> (g, n)) ?c"
    proof (rule takeWhile_cong [OF refl])
      fix item assume it: "item \<in> set ?c"
      obtain a b where ab: "item = (a, b)" by (cases item)
      have "b = n" if "a = g"
        using eq_key_imp_eq_value [OF distinct_counter_of [of ls], of g b n] it mem that
        by (simp add: ab)
      then show "((\<lambda>k. k \<noteq> g) \<circ> fst) item = (item \<noteq> (g, n))"
        by (auto simp: ab)
    qed
    with hm have hm': "(h, m) \<in> set (takeWhile (\<lambda>item. item \<noteq> (g, n)) ?c)" by simp
    then have "m < n" using most_common_head_first [OF mc] by simp
    moreover have "m = count_list ls h"
      using hm' by (auto dest!: set_takeWhileD intro: counter_of_item)
    ultimately show False using tie n by simp
  qed
  show ?thesis using ent gin mx first by blast
qed

lemma detect_columns_Nil: "detect_columns [] = None"
  by (simp add: detect_columns_def)

lemma fst_agg_row:
  "fst (agg_row cols row st) =
     (if row \<noteq> [] \<and> get_first_name (field row (name_idx cols)) \<noteq> []
      then counts_inc (get_first_name (field row (name_idx cols)))
             (normalize_gender (field row (gender_idx cols))) (fst st)
      else fst st)"
  by (cases st) (auto simp: agg_row_def Let_def split: option.splits)

lemma global_counter_fold:
  assumes "fname \<noteq> []"
  shows "map_of (fst (fold (agg_row cols) rows st)) fname =
           (if labels_for cols fname rows = [] then map_of (fst st) fname
            else Some (fold counter_inc (labels_for cols fname rows)
                         (case map_of (fst st) fname of Some c \<Rightarrow> c | None \<Rightarrow> [])))"
proof (induction rows arbitrary: st)
  case Nil
  then show ?case by (simp add: labels_for_def)
next
  case (Cons row rows)
  let ?st = "agg_row cols row st"
  let ?c0 = "case map_of (fst st) fname of Some c \<Rightarrow> c | None \<Rightarrow> []"
  show ?case
  proof (cases "row \<noteq> [] \<and> get_first_name (field row (name_idx cols)) = fname")
    case True
    let ?g = "normalize_gender (field row (gender_idx cols))"
    have m: "map_of (fst ?st) fname = Some (counter_inc ?g ?c0)"
      using True assms by (simp add: fst_agg_row map_of_counts_inc)
    have l: "labels_for cols fname (row # rows) = ?g # labels_for cols fname rows"
      using True by (simp add: labels_for_def)
    show ?thesis
      using Cons.IH [of ?st] by (simp add: l m)
  next
    case False
    have m: "map_of (fst ?st) fname = map_of (fst st) fname"
      using False by (auto simp: fst_agg_row map_of_counts_inc)
    have l: "labels_for cols fname (row # rows) = labels_for cols fname rows"
      using False by (auto simp: labels_for_def)
    show ?thesis
      using Cons.IH [of ?st] by (simp add: l m)
  qed
qed

lemma agg_row_default_first:
  "first_row \<noteq> [] \<Longrightarrow>
   agg_row default_columns first_row ([], []) =
     ((if get_first_name (field first_row 0) \<noteq> []
       then counts_inc (get_first_name (field first_row 0))
              (normalize_gender (field first_row 1)) []
       else []), [])"
  by (simp add: agg_row_def default_columns_def Let_def)

lemma agg_row_Nil: "agg_row cols [] st = st"
  by (cases st) (simp add: agg_row_def)

lemma aggregate_as_fold:
  "aggregate rows = fold (agg_row (reference_columns rows)) (reference_data rows) ([], [])"
proof (cases rows)
  case Nil
  then show ?thesis by (simp add: aggregate_def reference_data_def)
next
  case (Cons first_row rest)
  show ?thesis
  proof (cases "first_row = []")
    case True
    then show ?thesis
      by (simp add: aggregate_def Cons reference_data_def reference_columns_def
          detect_columns_Nil agg_row_Nil)
  next
    case False
    then show ?thesis
      by (cases "detect_columns first_row")
        (simp_all add: aggregate_def Cons reference_data_def reference_columns_def
          agg_row_default_first Let_def)
  qed
qed

lemma global_counter_observed:
  assumes "fname \<noteq> []"
  shows "map_of (fst (aggregate rows)) fname =
           (if observed_labels rows fname = [] then None
            else Some (counter_of (observed_labels rows fname)))"
  using global_counter_fold [OF assms, of "reference_columns rows" "reference_data rows" "([], [])"]
  by (simp add: aggregate_as_fold observed_labels_def counter_of_def)

lemma snd_agg_row:
  "snd (agg_row cols row st) =
     (case country_idx cols of
        None \<Rightarrow> snd st
      | Some ci \<Rightarrow>
          if row \<noteq> [] \<and> get_first_name (field row (name_idx cols)) \<noteq> []
             \<and> upper (strip (field row ci)) \<noteq> []
          then country_inc (upper (strip (field row ci)))
                 (get_first_name (field row (name_idx cols)))
                 (normalize_gender (field row (gender_idx cols))) (snd st)
          else snd st)"
  by (cases st) (auto simp: agg_row_def Let_def split: option.splits)

lemma country_counter_inc:
  "country_counter (country_inc co f g cc) co' f' =
     (if co' = co \<and> f' = f
      then Some (counter_inc g (case country_counter cc co f of Some c \<Rightarrow> c | None \<Rightarrow> []))
      else country_counter cc co' f')"
  by (auto simp: country_counter_def map_of_country_inc map_of_counts_inc split: option.splits)

lemma country_counter_fold:
  assumes "fname \<noteq> []" and "country \<noteq> []"
  shows "country_counter (snd (fold (agg_row cols) rows st)) country fname =
           (if labels_for_country cols country fname rows = []
            then country_counter (snd st) country fname
            else Some (fold counter_inc (labels_for_country cols country fname rows)
                         (case country_counter (snd st) country fname of
                            Some c \<Rightarrow> c | None \<Rightarrow> [])))"
proof (induction rows arbitrary: st)
  case Nil
  then show ?case by (simp add: labels_for_country_def split: option.splits)
next
  case (Cons row rows)
  let ?st = "agg_row cols row st"
  show ?case
  proof (cases "country_idx cols")
    case None
    have m: "country_counter (snd ?st) country fname = country_counter (snd st) country fname"
      by (simp add: snd_agg_row None)
    have l: "labels_for_country cols country fname rs = []" for rs
      by (simp add: labels_for_country_def None)
    show ?thesis using Cons.IH [of ?st] by (simp add: l m)
  next
    case (Some ci)
    show ?thesis
    proof (cases "row \<noteq> [] \<and> get_first_name (field row (name_idx cols)) = fname
                    \<and> upper (strip (field row ci)) = country")
      case True
      let ?g = "normalize_gender (field row (gender_idx cols))"
      let ?c0 = "case country_counter (snd st) country fname of Some c \<Rightarrow> c | None \<Rightarrow> []"
      have m: "country_counter (snd ?st) country fname = Some (counter_inc ?g ?c0)"
        using True assms by (simp add: snd_agg_row Some country_counter_inc)
      have l: "labels_for_country cols country fname (row # rows)
          = ?g # labels_for_country cols country fname rows"
        using True by (simp add: labels_for_country_def Some)
      show ?thesis using Cons.IH [of ?st] by (simp add: l m)
    next
      case False
      have m: "country_counter (snd ?st) country fname = country_counter (snd st) country fname"
        using False by (auto simp: snd_agg_row Some country_counter_inc)
      have l: "labels_for_country cols country fname (row # rows)
          = labels_for_country cols country fname rows"
        using False by (auto simp: labels_for_country_def Some)
      show ?thesis using Cons.IH [of ?st] by (simp add: l m)
    qed
  qed
qed

lemma country_counter_observed:
  assumes "fname \<noteq> []" and "country \<noteq> []"
  shows "country_counter (snd (aggregate rows)) country fname =
           (if observed_labels_country rows country fname = [] then None
            else Some (counter_of (observed_labels_country rows country fname)))"
  using country_counter_fold [OF assms, of "reference_columns rows" "reference_data rows" "([], [])"]
  by (simp add: aggregate_as_fold observed_labels_country_def counter_of_def
      country_counter_def)

lemma build_inner_fold_distinct:
  assumes "distinct (map fst d)"
  shows "fold (\<lambda>(fname, ctr) mc.
                 case entry_of ctr of None \<Rightarrow> mc | Some e \<Rightarrow> mc((country, fname) \<mapsto> e))
              d m0 (co, fname)
         = (if co = country
            then (case map_of d fname of
                    None \<Rightarrow> m0 (co, fname)
                  | Some ctr \<Rightarrow> (case entry_of ctr of None \<Rightarrow> m0 (co, fname) | Some e \<Rightarrow> Some e))
            else m0 (co, fname))"
  using assms
proof (induction d arbitrary: m0)
  case Nil
  then show ?case by simp
next
  case (Cons item d)
  obtain f c where item: "item = (f, c)" by (cases item)
  from Cons.prems have d: "distinct (map fst d)" and nf: "f \<notin> set (map fst d)"
    by (auto simp: item)
  have none: "f = fname \<Longrightarrow> map_of d fname = None"
    using nf by (simp add: map_of_eq_None_iff)
  show ?case
    using Cons.IH [OF d, of "case entry_of c of None \<Rightarrow> m0 | Some e \<Rightarrow> m0((country, f) \<mapsto> e)"]
      none
    by (auto simp: item split: option.splits)
qed

lemma build_mapping_country_fold_distinct:
  assumes "distinct (map fst cc)"
    and "\<forall>co d. (co, d) \<in> set cc \<longrightarrow> distinct (map fst d)"
  shows "fold (\<lambda>(country, d) mapping_country.
             fold (\<lambda>(fname, ctr) mc.
                     case entry_of ctr of None \<Rightarrow> mc | Some e \<Rightarrow> mc((country, fname) \<mapsto> e))
                  d mapping_country)
          cc m0 (co, fname)
         = (case country_counter cc co fname of
              None \<Rightarrow> m0 (co, fname)
            | Some ctr \<Rightarrow> (case entry_of ctr of None \<Rightarrow> m0 (co, fname) | Some e \<Rightarrow> Some e))"
  using assms
proof (induction cc arbitrary: m0)
  case Nil
  then show ?case by (simp add: country_counter_def)
next
  case (Cons item cc)
  obtain country d where item: "item = (country, d)" by (cases item)
  from Cons.prems have dcc: "distinct (map fst cc)" and nc: "country \<notin> set (map fst cc)"
    and dd: "distinct (map fst d)"
    and rest: "\<forall>co d. (co, d) \<in> set cc \<longrightarrow> distinct (map fst d)"
    by (auto simp: item)
  have none: "co = country \<Longrightarrow> map_of cc co = None"
    using nc by (simp add: map_of_eq_None_iff)
  let ?m1 = "fold (\<lambda>(fname, ctr) mc.
                     case entry_of ctr of None \<Rightarrow> mc | Some e \<Rightarrow> mc((country, fname) \<mapsto> e))
                  d m0"
  show ?case
    using Cons.IH [OF dcc rest, of ?m1] build_inner_fold_distinct [OF dd, of country m0 co fname]
      none
    by (auto simp: item country_counter_def split: option.splits)
qed

lemma build_mapping_country_distinct:
  assumes "distinct (map fst cc)"
    and "\<forall>co d. map_of cc co = Some d \<longrightarrow> distinct (map fst d)"
  shows "build_mapping_country cc (country, fname)
       = (case country_counter cc country fname of None \<Rightarrow> None | Some ctr \<Rightarrow> entry_of ctr)"
proof -
  have "\<forall>co d. (co, d) \<in> set cc \<longrightarrow> distinct (map fst d)"
    using assms by simp
  from build_mapping_country_fold_distinct [OF assms(1) this, of Map.empty country fname]
  show ?thesis
    unfolding build_mapping_country_def by (simp split: option.splits)
qed

lemma mapping_country_observed:
  assumes "fname \<noteq> []" and "country \<noteq> []"
  shows "build_mapping_country (snd (aggregate rows)) (country, fname)
       = (if observed_labels_country rows country fname = [] then None
          else entry_of (counter_of (observed_labels_country rows country fname)))"
proof -
  obtain cg cc where st: "aggregate rows = (cg, cc)" by (cases "aggregate rows")
  have inv: "agg_inv (cg, cc)" using agg_inv_aggregate [of rows] by (simp add: st)
  have dcc: "distinct (map fst cc)"
    and dd: "\<forall>co d. map_of cc co = Some d \<longrightarrow> distinct (map fst d)"
    using inv by (simp_all add: agg_inv_def)
  show ?thesis
    using build_mapping_country_distinct [OF dcc dd, of country fname]
      country_counter_observed [OF assms, of rows]
    by (simp add: st)
qed

lemma mapping_observed:
  assumes "fname \<noteq> []"
  shows "build_mapping (fst (aggregate rows)) fname
       = (if observed_labels rows fname = [] then None
          else entry_of (counter_of (observed_labels rows fname)))"
proof -
  have "distinct (map fst (fst (aggregate rows)))"
    using agg_inv_aggregate [of rows] by (cases "aggregate rows") (simp add: agg_inv_def)
  then show ?thesis
    using assms by (simp add: build_mapping_distinct global_counter_observed)
qed

lemma aggregate_reference_fm:
  "aggregate reference_fm = ([(''alex'', [(Female, 1), (Male, 1)])], [])"
  "aggregate (rev reference_fm) = ([(''alex'', [(Male, 1), (Female, 1)])], [])"
  unfolding reference_fm_def by code_simp+

lemma entry_of_fm:
  "entry_of [(Female, 1), (Male, 1)] = Some (Female, double (double (1 / 2) * double (7 / 10)), 2)"
  "entry_of [(Male, 1), (Female, 1)] = Some (Male, double (double (1 / 2) * double (7 / 10)), 2)"
  by code_simp+

lemma mapping_fm:
  "build_mapping [(''alex'', [(Female, 1), (Male, 1)])] = [''alex'' \<mapsto> (Female, double (double (1 / 2) * double (7 / 10)), 2)]"
  "build_mapping [(''alex'', [(Male, 1), (Female, 1)])] = [''alex'' \<mapsto> (Male, double (double (1 / 2) * double (7 / 10)), 2)]"
  by (simp_all add: build_mapping_def entry_of_fm del: One_nat_def)

lemma observed_fm: "observed_labels reference_fm ''alex'' = [Female, Male]"
  unfolding reference_fm_def by code_simp

lemma aggregate_reference_tie:
  "aggregate reference_tie
     = ([(''alex'', [(Female, 1), (Male, 1)])],
        [(''US'', [(''alex'', [(Female, 1), (Male, 1)])])])"
  "aggregate reference_tie_rev
     = ([(''alex'', [(Male, 1), (Female, 1)])],
        [(''US'', [(''alex'', [(Male, 1), (Female, 1)])])])"
  unfolding reference_tie_def reference_tie_rev_def by code_simp+

lemma mapping_country_tie:
  "build_mapping_country [(''US'', [(''alex'', [(Female, 1), (Male, 1)])])]
     = [(''US'', ''alex'') \<mapsto> (Female, double (double (1 / 2) * double (7 / 10)), 2)]"
  "build_mapping_country [(''US'', [(''alex'', [(Male, 1), (Female, 1)])])]
     = [(''US'', ''alex'') \<mapsto> (Male, double (double (1 / 2) * double (7 / 10)), 2)]"
  by (simp_all add: build_mapping_country_def entry_of_fm del: One_nat_def)

lemma observed_tie:
  "observed_labels reference_tie ''alex'' = [Female, Male]"
  "observed_labels_country reference_tie ''US'' ''alex'' = [Female, Male]"
  unfolding reference_tie_def by code_simp+

text \<open>
  Claim C4, as the script computes it, for the global table and for the table of every
  country: the top label stored for a name has the largest count among the labels that
  the reference rows show for that name (under that country), and no label of the same
  count was shown by an earlier row than its first row. Among tied labels the stored
  one is the label counted first (the insertion order of the \<open>Counter\<close>), so it depends
  on the order of the reference rows.
\<close>

theorem top_label_first_observed:
  assumes "fname \<noteq> []"
  shows "(observed_labels rows fname \<noteq> [] \<longrightarrow>
           (\<exists>g conf. build_mapping (fst (aggregate rows)) fname
               = Some (g, conf, length (observed_labels rows fname))
             \<and> g \<in> set (observed_labels rows fname)
             \<and> (\<forall>h. count_list (observed_labels rows fname) h
                      \<le> count_list (observed_labels rows fname) g)
             \<and> (\<forall>h. count_list (observed_labels rows fname) h
                      = count_list (observed_labels rows fname) g
                    \<longrightarrow> h \<notin> set (takeWhile (\<lambda>x. x \<noteq> g) (observed_labels rows fname)))))
       \<and> (country \<noteq> [] \<and> observed_labels_country rows country fname \<noteq> [] \<longrightarrow>
           (\<exists>g conf. build_mapping_country (snd (aggregate rows)) (country, fname)
               = Some (g, conf, length (observed_labels_country rows country fname))
             \<and> g \<in> set (observed_labels_country rows country fname)
             \<and> (\<forall>h. count_list (observed_labels_country rows country fname) h
                      \<le> count_list (observed_labels_country rows country fname) g)
             \<and> (\<forall>h. count_list (observed_labels_country rows country fname) h
                      = count_list (observed_labels_country rows country fname) g
                    \<longrightarrow> h \<notin> set (takeWhile (\<lambda>x. x \<noteq> g)
                                     (observed_labels_country rows country fname)))))"
proof (intro conjI impI)
  assume ne: "observed_labels rows fname \<noteq> []"
  show "\<exists>g conf. build_mapping (fst (aggregate rows)) fname
               = Some (g, conf, length (observed_labels rows fname))
             \<and> g \<in> set (observed_labels rows fname)
             \<and> (\<forall>h. count_list (observed_labels rows fname) h
                      \<le> count_list (observed_labels rows fname) g)
             \<and> (\<forall>h. count_list (observed_labels rows fname) h
                      = count_list (observed_labels rows fname) g
                    \<longrightarrow> h \<notin> set (takeWhile (\<lambda>x. x \<noteq> g) (observed_labels rows fname)))"
    using top_label_first_counted [OF ne] ne by (simp add: mapping_observed [OF assms])
next
  assume "country \<noteq> [] \<and> observed_labels_country rows country fname \<noteq> []"
  then have co: "country \<noteq> []" and ne: "observed_labels_country rows country fname \<noteq> []"
    by simp_all
  show "\<exists>g conf. build_mapping_country (snd (aggregate rows)) (country, fname)
               = Some (g, conf, length (observed_labels_country rows country fname))
             \<and> g \<in> set (observed_labels_country rows country fname)
             \<and> (\<forall>h. count_list (observed_labels_country rows country fname) h
                      \<le> count_list (observed_labels_country rows country fname) g)
             \<and> (\<forall>h. count_list (observed_labels_country rows country fname) h
                      = count_list (observed_labels_country rows country fname) g
                    \<longrightarrow> h \<notin> set (takeWhile (\<lambda>x. x \<noteq> g)
                                     (observed_labels_country rows country fname)))"
    using top_label_first_counted [OF ne] ne
    by (simp add: mapping_country_observed [OF assms co])
qed

theorem top_label_first_observed_witness:
  "''alex'' \<noteq> [] \<and> observed_labels reference_tie ''alex'' \<noteq> []
   \<and> ''US'' \<noteq> [] \<and> observed_labels_country reference_tie ''US'' ''alex'' \<noteq> []
   \<and> build_mapping (fst (aggregate reference_tie)) ''alex''
       = Some (Female, double (double (1 / 2) * double (7 / 10)),
               length (observed_labels reference_tie ''alex''))
   \<and> build_mapping_country (snd (aggregate reference_tie)) (''US'', ''alex'')
       = Some (Female, double (double (1 / 2) * double (7 / 10)),
               length (observed_labels_country reference_tie ''US'' ''alex''))
   \<and> (\<exists>g conf. build_mapping (fst (aggregate reference_tie)) ''alex''
             = Some (g, conf, length (observed_labels reference_tie ''alex''))
           \<and> g \<in> set (observed_labels reference_tie ''alex'')
           \<and> (\<forall>h. count_list (observed_labels reference_tie ''alex'') h
                    \<le> count_list (observed_labels reference_tie ''alex'') g)
           \<and> (\<forall>h. count_list (observed_labels reference_tie ''alex'') h
                    = count_list (observed_labels reference_tie ''alex'') g
                  \<longrightarrow> h \<notin> set (takeWhile (\<lambda>x. x \<noteq> g)
                                   (observed_labels reference_tie ''alex''))))
   \<and> (\<exists>g conf. build_mapping_country (snd (aggregate reference_tie)) (''US'', ''alex'')
             = Some (g, conf, length (observed_labels_country reference_tie ''US'' ''alex''))
           \<and> g \<in> set (observed_labels_country reference_tie ''US'' ''alex'')
           \<and> (\<forall>h. count_list (observed_labels_country reference_tie ''US'' ''alex'') h
                    \<le> count_list (observed_labels_country reference_tie ''US'' ''alex'') g)
           \<and> (\<forall>h. count_list (observed_labels_country reference_tie ''US'' ''alex'') h
                    = count_list (observed_labels_country reference_tie ''US'' ''alex'') g
                  \<longrightarrow> h \<notin> set (takeWhile (\<lambda>x. x \<noteq> g)
                                   (observed_labels_country reference_tie ''US'' ''alex''))))"
proof -
  have h1: "''alex'' \<noteq> []" by simp
  have h2: "observed_labels reference_tie ''alex'' \<noteq> []" by (simp add: observed_tie)
  have h3: "''US'' \<noteq> []" by simp
  have h4: "observed_labels_country reference_tie ''US'' ''alex'' \<noteq> []"
    by (simp add: observed_tie)
  have e1: "build_mapping (fst (aggregate reference_tie)) ''alex''
       = Some (Female, double (double (1 / 2) * double (7 / 10)),
               length (observed_labels reference_tie ''alex''))"
    by (simp add: aggregate_reference_tie mapping_fm observed_tie del: One_nat_def)
  have e2: "build_mapping_country (snd (aggregate reference_tie)) (''US'', ''alex'')
       = Some (Female, double (double (1 / 2) * double (7 / 10)),
               length (observed_labels_country reference_tie ''US'' ''alex''))"
    by (simp add: aggregate_reference_tie mapping_country_tie observed_tie del: One_nat_def)
  from top_label_first_observed [OF h1, of reference_tie "''US''"] h1 h2 h3 h4 e1 e2
  show ?thesis by blast
qed

text \<open>
  Claim C4 as stated fails, in the global table and in the table of a country: with the
  rows \<open>("Alex", "F")\<close>, \<open>("Alex", "M")\<close> the two labels share the count 1 and the stored
  top label is Female, although Male comes first in the enumeration; with the same rows
  in the other order it is Male.
\<close>

theorem tie_break_counterexample:
  "fst (aggregate reference_fm) = [(''alex'', [(Female, 1), (Male, 1)])]
   \<and> build_mapping (fst (aggregate reference_fm)) ''alex''
       = Some (Female, double (double (1 / 2) * double (7 / 10)), 2)
   \<and> build_mapping (fst (aggregate (rev reference_fm))) ''alex''
       = Some (Male, double (double (1 / 2) * double (7 / 10)), 2)
   \<and> snd (aggregate reference_tie) = [(''US'', [(''alex'', [(Female, 1), (Male, 1)])])]
   \<and> build_mapping_country (snd (aggregate reference_tie)) (''US'', ''alex'')
       = Some (Female, double (double (1 / 2) * double (7 / 10)), 2)
   \<and> build_mapping_country (snd (aggregate reference_tie_rev)) (''US'', ''alex'')
       = Some (Male, double (double (1 / 2) * double (7 / 10)), 2)"
  by (simp add: aggregate_reference_fm mapping_fm aggregate_reference_tie mapping_country_tie
      del: One_nat_def)

subsection \<open>The audit report\<close>









text \<open>
  For a total below \<open>2 ^ 49\<close> the rule of the specification reads the same with the
  share and 0.7 taken as numbers instead of floats.
\<close>

lemma audit_flag_spec_exact:
  assumes "0 < total_of ctr" and "total_of ctr < 2 ^ 49"
  shows "audit_flag_spec ctr =
     (let total = total_of ctr;
          counts = rev (sort (map snd ctr));
          top_count = counts ! 0
      in total < 50
         \<or> rat_of_nat top_count / rat_of_nat total < 7 / 10
         \<or> (card (fst ` set ctr) \<ge> 2 \<and> int top_count - int (counts ! 1) < 3))"
proof -
  define counts where "counts = rev (sort (map snd ctr))"
  have "ctr \<noteq> []" using assms(1) by (auto simp: total_of_def)
  then have "length counts \<noteq> 0" by (simp add: counts_def)
  then have "counts \<noteq> []" by (simp only: length_0_conv not_False_eq_True)
  then have "counts ! 0 \<in> set counts" by simp
  then have "counts ! 0 \<in> snd ` set ctr" by (simp add: counts_def)
  then obtain g where "(g, counts ! 0) \<in> set ctr" by force
  then have le: "counts ! 0 \<le> total_of ctr" by (rule member_le_total)
  show ?thesis
    using share_below_exact [OF assms(1) le assms(2)]
    by (simp add: audit_flag_spec_def Let_def counts_def)
qed




end
